theory Spec2Isabelle
  imports Main "HOL-Library.Word" "HOL-Library.Sublist"
begin

section \<open>The TCP forwarding proxy of internal/proxy/proxy.go\<close>

text \<open>
  The proxy is a concurrent program: one accept loop per \<open>Proxy\<close>, one handler goroutine
  per admitted connection, two relay goroutines per handler, and the callers of \<open>Stop\<close>.
  It is embedded as an interleaving semantics. Every goroutine has a program counter,
  one constructor per statement of the source at which another goroutine or the
  environment can be observed; an event lets one goroutine execute the statement it
  stands at, carrying what the environment answered when the statement is a call into
  the socket layer. The function \<open>step\<close> is deterministic and total, \<open>run\<close> folds it over
  an event list, and a property of the program is a property of every \<open>run\<close>.
\<close>

subsection \<open>Constants (lines 11--18)\<close>

type_synonym byte = "8 word"

text \<open>Time is counted in nanoseconds, the unit of Go's \<open>time.Duration\<close>.\<close>

definition second :: nat where
  "second = 1000000000"

definition MaxConnectionsPerProxy :: nat where
  "MaxConnectionsPerProxy = 100"

definition ConnectionTimeout :: nat where
  "ConnectionTimeout = 30 * second"

definition DialTimeout :: nat where
  "DialTimeout = 5 * second"

subsection \<open>The socket layer the proxy calls\<close>

text \<open>
  \<open>net.Listen\<close>, \<open>net.Conn\<close>, \<open>net.Dialer\<close>, \<open>io.Copy\<close> and \<open>fmt.Sprintf\<close> belong to Go's
  standard library, not to the repository; they are written down here as the library
  behaves, as far as the proxy uses them.
\<close>

text \<open>The verb \<open>%d\<close> of \<open>fmt.Sprintf\<close>: an integer in decimal.\<close>

definition digit :: "nat \<Rightarrow> char" where
  "digit n = ''0123456789'' ! n"

fun fmt_nat :: "nat \<Rightarrow> string" where
  "fmt_nat n = (if n < 10 then [digit n] else fmt_nat (n div 10) @ [digit (n mod 10)])"

declare fmt_nat.simps [simp del]

definition fmt_d :: "int \<Rightarrow> string" where
  "fmt_d i = (if i < 0 then CHR ''-'' # fmt_nat (nat (- i)) else fmt_nat (nat i))"

text \<open>
  How \<open>net.Listen\<close> reads the port of an address \<open>":<service>"\<close> (\<open>parsePort\<close> of package
  \<open>net\<close>). After an optional sign the digits are accumulated in an unsigned 32-bit
  number \<open>n\<close>: for each digit, when \<open>n\<close> has reached \<open>cutoff\<close> the loop is left with \<open>n\<close> at
  its maximum; otherwise \<open>n\<close> is multiplied by ten, which wraps round at \<open>2^32\<close> unnoticed,
  and the digit is added, where an overflow is noticed and leaves the loop in the same
  way. A character that is not a digit means the service is a name to look up. The
  result is capped at \<open>cutoff - 1\<close>, or \<open>- cutoff\<close> under a minus sign.
\<close>

definition is_digit :: "char \<Rightarrow> bool" where
  "is_digit c = (48 \<le> (of_char c :: nat) \<and> (of_char c :: nat) \<le> 57)"

definition digit_val :: "char \<Rightarrow> nat" where
  "digit_val c = of_char c - 48"

definition cutoff :: nat where
  "cutoff = 1073741824"

text \<open>
  The state of the loop: still running with \<open>n\<close>, left by \<open>break\<close> with \<open>n\<close> at its
  maximum, or returned because the service is not a number.
\<close>

datatype scan = Run nat | Broke | Lookup

fun scan_step :: "scan \<Rightarrow> char \<Rightarrow> scan" where
  "scan_step (Run n) c =
     (if \<not> is_digit c then Lookup
      else if cutoff \<le> n then Broke
      else let m = (n * 10) mod 4294967296
           in if 4294967296 \<le> m + digit_val c then Broke else Run (m + digit_val c))"
| "scan_step Broke c = Broke"
| "scan_step Lookup c = Lookup"

definition finish :: "bool \<Rightarrow> scan \<Rightarrow> int option" where
  "finish neg st =
     (case st of
        Lookup \<Rightarrow> None
      | Broke \<Rightarrow> Some (if neg then - int cutoff else int cutoff - 1)
      | Run n \<Rightarrow>
          (let port = (if \<not> neg \<and> cutoff \<le> n then cutoff - 1
                       else if neg \<and> cutoff < n then cutoff else n)
           in Some (if neg then - int port else int port)))"

definition parsePort :: "string \<Rightarrow> int option" where
  "parsePort service =
     (case service of
        [] \<Rightarrow> Some 0
      | c # cs \<Rightarrow>
          if c = CHR ''+'' then finish False (foldl scan_step (Run 0) cs)
          else if c = CHR ''-'' then finish True (foldl scan_step (Run 0) cs)
          else finish False (foldl scan_step (Run 0) service))"

text \<open>
  The operating system as \<open>net.Listen\<close> sees it: the TCP ports in LISTEN state, whether
  the process may bind a port below 1024, and the ports of the kernel's ephemeral range
  in the order the kernel tries them when asked for port 0.
\<close>

record os =
  listening :: "int set"
  privileged :: bool
  ephemeral :: "int list"

datatype sock_error = UnknownPort | InvalidPort | AddrInUse | PermissionDenied

text \<open>
  \<open>bind\<close> and \<open>listen\<close> on port \<open>p\<close> of all interfaces. Port 0 takes the first port of
  the ephemeral range that is not listening, and fails when there is none. Any other
  port is refused below 1024 without privilege, and then when it is listening already.
  On success the bound port is returned with the system it leaves.
\<close>

definition tcp_bind :: "os \<Rightarrow> int \<Rightarrow> sock_error + (int \<times> os)" where
  "tcp_bind k p =
     (if p = 0 then
        (case find (\<lambda>q. q \<notin> listening k) (ephemeral k) of
           None \<Rightarrow> Inl AddrInUse
         | Some q \<Rightarrow> Inr (q, k\<lparr>listening := insert q (listening k)\<rparr>))
      else if p < 1024 \<and> \<not> privileged k then Inl PermissionDenied
      else if p \<in> listening k then Inl AddrInUse
      else Inr (p, k\<lparr>listening := insert p (listening k)\<rparr>))"

text \<open>
  \<open>net_Listen k port\<close> is \<open>net.Listen("tcp", fmt.Sprintf(":%d", port))\<close>, the call of
  \<open>Start\<close>: the service \<open>fmt_d port\<close> is read by \<open>parsePort\<close>, a result outside 0..65535 is
  an invalid port, and a port in that range is bound.
\<close>

definition net_Listen :: "os \<Rightarrow> int \<Rightarrow> sock_error + (int \<times> os)" where
  "net_Listen k port =
     (case parsePort (fmt_d port) of
        None \<Rightarrow> Inl UnknownPort
      | Some p \<Rightarrow> if p < 0 \<or> 65535 < p then Inl InvalidPort else tcp_bind k p)"

text \<open>A \<open>net.Listener\<close>: the port it holds and whether it is still open.\<close>

record net_Listener =
  lport :: int
  lopen :: bool

text \<open>
  A \<open>net.Conn\<close> as the proxy holds it. \<open>rcvd\<close> and \<open>written\<close> are the bytes the proxy
  has read from and written to the connection so far, in order.
\<close>

record conn =
  is_tcp :: bool
  deadline :: "nat option"
  wr_closed :: bool
  closed :: bool
  rcvd :: "byte list"
  written :: "byte list"

definition new_conn :: conn where
  "new_conn = \<lparr>is_tcp = True, deadline = None, wr_closed = False, closed = False,
     rcvd = [], written = []\<rparr>"

text \<open>
  A deadline is an absolute time: once it has passed, every read and write on the
  connection fails instead of blocking, until a later deadline is set.
\<close>

definition expired :: "conn \<Rightarrow> nat \<Rightarrow> bool" where
  "expired c now = (case deadline c of None \<Rightarrow> False | Some d \<Rightarrow> d \<le> now)"

datatype read_result = Data "byte list" | EOF | ReadErr

datatype write_result = WriteOk | WriteErr nat

text \<open>What \<open>Read\<close> returns at time \<open>now\<close> when the peer offers \<open>r\<close>.\<close>

definition conn_Read :: "conn \<Rightarrow> nat \<Rightarrow> read_result \<Rightarrow> read_result" where
  "conn_Read c now r = (if closed c \<or> expired c now then ReadErr else r)"

text \<open>
  What \<open>Write buf\<close> returns at time \<open>now\<close>: the number of bytes written and whether
  the write succeeded. A failed write may have written a part of the buffer.
\<close>

definition conn_Write :: "conn \<Rightarrow> nat \<Rightarrow> byte list \<Rightarrow> write_result \<Rightarrow> nat \<times> bool" where
  "conn_Write c now buf w =
     (if closed c \<or> wr_closed c then (0, False)
      else case w of
        WriteErr k \<Rightarrow> (min k (length buf), False)
      | WriteOk \<Rightarrow> if expired c now then (0, False) else (length buf, True))"

subsection \<open>The Proxy and its goroutines (lines 20--38)\<close>

text \<open>
  \<open>done_closed\<close> is the state of the channel \<open>done\<close>, which is only ever closed;
  \<open>connSem\<close> is the number of elements in the buffered channel of capacity
  \<open>MaxConnectionsPerProxy\<close>; \<open>wg\<close> is the counter of the wait group.
\<close>

record proxy =
  LocalPort :: int
  RemoteAddr :: string
  listener :: "net_Listener option"
  done_closed :: bool
  wg :: nat
  connSem :: nat

definition New :: "int \<Rightarrow> string \<Rightarrow> int \<Rightarrow> proxy" where
  "New localPort remoteHost remotePort =
     \<lparr>LocalPort = localPort,
      RemoteAddr = remoteHost @ '':'' @ fmt_d remotePort,
      listener = None,
      done_closed = False,
      wg = 0,
      connSem = 0\<rparr>"

text \<open>
  The program counter of the accept loop (lines 63--87): not yet started, blocked in
  \<open>Accept\<close>, at the \<open>select\<close> on \<open>connSem\<close> with a connection accepted at the given
  time, at the \<open>select\<close> on \<open>done\<close> after an error, and returned.
\<close>

datatype apc = A_Idle | A_Accept | A_GotConn nat | A_GotErr | A_Exited

text \<open>
  The program counter of a relay goroutine (lines 113--120 and 122--129): not spawned,
  inside \<open>io.Copy\<close> blocked in \<open>Read\<close>, inside \<open>io.Copy\<close> blocked in \<open>Write\<close> of the chunk
  just read, at \<open>CloseWrite\<close>, at the send on \<open>done\<close>, and returned.
\<close>

datatype rpc = R_Idle | R_Read | R_Write "byte list" | R_CloseWrite | R_Send | R_Exited

datatype copy_end = CopyEOF | CopyErr

text \<open>The two relays: \<open>Up\<close> is \<open>io.Copy(remote, local)\<close>, \<open>Down\<close> is \<open>io.Copy(local, remote)\<close>.\<close>

datatype dir = Up | Down

text \<open>
  The program counter of \<open>handleConnection\<close> (lines 89--134), one constructor per
  statement; the last four are the deferred calls, in the order they run.
\<close>

datatype hpc =
    H_SetDeadline
  | H_Dial
  | H_SetRemoteDeadline
  | H_Relay
  | H_Wait1
  | H_Wait2
  | H_CloseRemote
  | H_CloseLocal
  | H_Release
  | H_WgDone
  | H_Exited

text \<open>
  A handler goroutine with its two relays. \<open>hdone\<close> is the number of elements in the
  handler's channel \<open>done\<close> (capacity 2). \<open>t_accept\<close>, \<open>dial_start\<close> and \<open>t_closed\<close>
  record when the connection was accepted, when \<open>Dial\<close> was called and when
  \<open>local.Close()\<close> ran.
\<close>

record handler =
  hpc :: hpc
  local :: conn
  remote :: "conn option"
  up :: rpc
  up_end :: "copy_end option"
  down :: rpc
  down_end :: "copy_end option"
  hdone :: nat
  t_accept :: nat
  dial_start :: nat
  t_closed :: "nat option"

definition new_handler :: "nat \<Rightarrow> handler" where
  "new_handler t =
     \<lparr>hpc = H_SetDeadline, local = new_conn, remote = None,
      up = R_Idle, up_end = None, down = R_Idle, down_end = None,
      hdone = 0, t_accept = t, dial_start = 0, t_closed = None\<rparr>"

text \<open>The program counter of a call of \<open>Stop\<close> (lines 55--61).\<close>

datatype spc = S_CloseDone | S_CloseListener | S_Wait | S_Returned

text \<open>
  The whole system: the socket layer, one proxy, its goroutines, the connections the
  accept loop turned away, the calls of \<open>Stop\<close>, whether the process has panicked, how
  often the listening socket was given back to the system, and the clock.
\<close>

record sys =
  os :: os
  px :: proxy
  accept_pc :: apc
  handlers :: "handler list"
  rejected :: "conn list"
  stoppers :: "spc list"
  panicked :: bool
  released :: nat
  clock :: nat

subsection \<open>Start (lines 40--52)\<close>

datatype error = BindError int sock_error

text \<open>
  \<open>Start\<close> runs in its caller, before any goroutine of the proxy exists. It returns
  the error with the state it leaves behind: the socket layer, the proxy and the program
  counter of the accept loop.
\<close>

definition Start :: "os \<Rightarrow> proxy \<Rightarrow> apc \<Rightarrow> error option \<times> os \<times> proxy \<times> apc" where
  "Start k p a =
     (case net_Listen k (LocalPort p) of
        Inl err \<Rightarrow> (Some (BindError (LocalPort p) err), k, p, a)
      | Inr (q, k') \<Rightarrow>
          (None, k',
           p\<lparr>listener := Some \<lparr>lport = q, lopen = True\<rparr>, wg := wg p + 1\<rparr>,
           A_Accept))"

text \<open>The system right after a call of \<open>Start\<close> on a proxy made by \<open>New\<close>, at time \<open>t\<close>.\<close>

definition boot :: "os \<Rightarrow> int \<Rightarrow> string \<Rightarrow> int \<Rightarrow> nat \<Rightarrow> error option \<times> sys" where
  "boot k localPort remoteHost remotePort t =
     (case Start k (New localPort remoteHost remotePort) A_Idle of
        (err, k', p, a) \<Rightarrow>
          (err, \<lparr>os = k', px = p, accept_pc = a, handlers = [], rejected = [],
                 stoppers = [], panicked = False, released = 0, clock = t\<rparr>))"

subsection \<open>The wait group and the semaphore\<close>

text \<open>\<open>wg.Done()\<close> panics when the counter would become negative.\<close>

definition wg_Done :: "sys \<Rightarrow> sys" where
  "wg_Done s =
     (if wg (px s) = 0 then s\<lparr>panicked := True\<rparr>
      else s\<lparr>px := (px s)\<lparr>wg := wg (px s) - 1\<rparr>\<rparr>)"

definition wg_Add :: "sys \<Rightarrow> sys" where
  "wg_Add s = s\<lparr>px := (px s)\<lparr>wg := wg (px s) + 1\<rparr>\<rparr>"

subsection \<open>The accept loop (lines 63--87)\<close>

definition listener_open :: "proxy \<Rightarrow> bool" where
  "listener_open p = (case listener p of None \<Rightarrow> False | Some l \<Rightarrow> lopen l)"

text \<open>
  \<open>Accept\<close> returns: a connection (only while the listener is open) or an error.
\<close>

definition accept_returns :: "bool \<Rightarrow> sys \<Rightarrow> sys" where
  "accept_returns ok s =
     (if accept_pc s \<noteq> A_Accept then s
      else if ok then
        (if listener_open (px s) then s\<lparr>accept_pc := A_GotConn (clock s)\<rparr> else s)
      else s\<lparr>accept_pc := A_GotErr\<rparr>)"

text \<open>
  The two \<open>select\<close> statements. After an error (lines 69--74): return, running the
  deferred \<open>wg.Done()\<close>, when \<open>done\<close> is closed, and go round the loop otherwise. After a
  connection (lines 78--85): a non-blocking send on \<open>connSem\<close>; when it goes through,
  \<open>wg.Add(1)\<close> and the handler is spawned, otherwise the connection is closed.
\<close>

definition accept_select :: "sys \<Rightarrow> sys" where
  "accept_select s =
     (case accept_pc s of
        A_GotErr \<Rightarrow>
          (if done_closed (px s) then wg_Done (s\<lparr>accept_pc := A_Exited\<rparr>)
           else s\<lparr>accept_pc := A_Accept\<rparr>)
      | A_GotConn t \<Rightarrow>
          (if connSem (px s) < MaxConnectionsPerProxy then
             wg_Add (s\<lparr>px := (px s)\<lparr>connSem := connSem (px s) + 1\<rparr>,
                        handlers := handlers s @ [new_handler t],
                        accept_pc := A_Accept\<rparr>)
           else s\<lparr>rejected := rejected s @ [new_conn\<lparr>closed := True\<rparr>],
                  accept_pc := A_Accept\<rparr>)
      | _ \<Rightarrow> s)"

subsection \<open>The connection handler (lines 89--134)\<close>

definition set_handler :: "nat \<Rightarrow> handler \<Rightarrow> sys \<Rightarrow> sys" where
  "set_handler i h s = s\<lparr>handlers := (handlers s)[i := h]\<rparr>"

text \<open>
  One statement of handler \<open>i\<close>, where \<open>h\<close> is its state. \<open>Dial\<close> is left to
  \<open>dial_returns\<close>; a receive from an empty \<open>done\<close> and from an empty \<open>connSem\<close> blocks.
\<close>

definition handler_step :: "nat \<Rightarrow> handler \<Rightarrow> sys \<Rightarrow> sys" where
  "handler_step i h s =
     (case hpc h of
        H_SetDeadline \<Rightarrow>
          set_handler i
            (h\<lparr>local := (local h)\<lparr>deadline := Some (clock s + ConnectionTimeout)\<rparr>,
               dial_start := clock s, hpc := H_Dial\<rparr>) s
      | H_Dial \<Rightarrow> s
      | H_SetRemoteDeadline \<Rightarrow>
          set_handler i
            (h\<lparr>remote :=
                 map_option (\<lambda>r. r\<lparr>deadline := Some (clock s + ConnectionTimeout)\<rparr>) (remote h),
               hpc := H_Relay\<rparr>) s
      | H_Relay \<Rightarrow> set_handler i (h\<lparr>up := R_Read, down := R_Read, hpc := H_Wait1\<rparr>) s
      | H_Wait1 \<Rightarrow>
          (if 0 < hdone h then set_handler i (h\<lparr>hdone := hdone h - 1, hpc := H_Wait2\<rparr>) s
           else s)
      | H_Wait2 \<Rightarrow>
          (if 0 < hdone h then set_handler i (h\<lparr>hdone := hdone h - 1, hpc := H_CloseRemote\<rparr>) s
           else s)
      | H_CloseRemote \<Rightarrow>
          set_handler i
            (h\<lparr>remote := map_option (\<lambda>r. r\<lparr>closed := True\<rparr>) (remote h),
               hpc := H_CloseLocal\<rparr>) s
      | H_CloseLocal \<Rightarrow>
          set_handler i
            (h\<lparr>local := (local h)\<lparr>closed := True\<rparr>, t_closed := Some (clock s),
               hpc := H_Release\<rparr>) s
      | H_Release \<Rightarrow>
          (if 0 < connSem (px s) then
             set_handler i (h\<lparr>hpc := H_WgDone\<rparr>)
               (s\<lparr>px := (px s)\<lparr>connSem := connSem (px s) - 1\<rparr>\<rparr>)
           else s)
      | H_WgDone \<Rightarrow> wg_Done (set_handler i (h\<lparr>hpc := H_Exited\<rparr>) s)
      | H_Exited \<Rightarrow> s)"

text \<open>
  \<open>dialer.Dial\<close> returns (line 101). A dialer with \<open>Timeout: DialTimeout\<close> does not
  connect once the timeout has passed. On failure the handler returns (line 103): only
  the first deferred function is registered, so the next statement is \<open>local.Close()\<close>.
\<close>

definition dial_returns :: "nat \<Rightarrow> handler \<Rightarrow> bool \<Rightarrow> sys \<Rightarrow> sys" where
  "dial_returns i h ok s =
     (if hpc h \<noteq> H_Dial then s
      else if ok \<and> clock s < dial_start h + DialTimeout then
        set_handler i (h\<lparr>remote := Some new_conn, hpc := H_SetRemoteDeadline\<rparr>) s
      else set_handler i (h\<lparr>hpc := H_CloseLocal\<rparr>) s)"

subsection \<open>The two relays (lines 113--129)\<close>

definition rpc_of :: "dir \<Rightarrow> handler \<Rightarrow> rpc" where
  "rpc_of d h = (case d of Up \<Rightarrow> up h | Down \<Rightarrow> down h)"

definition set_rpc :: "dir \<Rightarrow> rpc \<Rightarrow> handler \<Rightarrow> handler" where
  "set_rpc d r h = (case d of Up \<Rightarrow> h\<lparr>up := r\<rparr> | Down \<Rightarrow> h\<lparr>down := r\<rparr>)"

definition set_end :: "dir \<Rightarrow> copy_end \<Rightarrow> handler \<Rightarrow> handler" where
  "set_end d e h = (case d of Up \<Rightarrow> h\<lparr>up_end := Some e\<rparr> | Down \<Rightarrow> h\<lparr>down_end := Some e\<rparr>)"

text \<open>The source and the destination of a relay, and their update.\<close>

definition src_of :: "dir \<Rightarrow> handler \<Rightarrow> conn option" where
  "src_of d h = (case d of Up \<Rightarrow> Some (local h) | Down \<Rightarrow> remote h)"

definition dst_of :: "dir \<Rightarrow> handler \<Rightarrow> conn option" where
  "dst_of d h = (case d of Up \<Rightarrow> remote h | Down \<Rightarrow> Some (local h))"

definition map_src :: "dir \<Rightarrow> (conn \<Rightarrow> conn) \<Rightarrow> handler \<Rightarrow> handler" where
  "map_src d f h =
     (case d of Up \<Rightarrow> h\<lparr>local := f (local h)\<rparr>
              | Down \<Rightarrow> h\<lparr>remote := map_option f (remote h)\<rparr>)"

definition map_dst :: "dir \<Rightarrow> (conn \<Rightarrow> conn) \<Rightarrow> handler \<Rightarrow> handler" where
  "map_dst d f h =
     (case d of Up \<Rightarrow> h\<lparr>remote := map_option f (remote h)\<rparr>
              | Down \<Rightarrow> h\<lparr>local := f (local h)\<rparr>)"

text \<open>
  \<open>io.Copy(dst, src)\<close> is a loop of \<open>src.Read\<close> and \<open>dst.Write\<close>: it writes each chunk
  it reads, as it is, and ends at the end of the stream or at the first error.
  \<open>read_returns\<close> is the return of the \<open>Read\<close> the relay is blocked in.
\<close>

definition read_returns :: "dir \<Rightarrow> read_result \<Rightarrow> nat \<Rightarrow> handler \<Rightarrow> handler" where
  "read_returns d r now h =
     (case (rpc_of d h, src_of d h) of
        (R_Read, Some c) \<Rightarrow>
          (case conn_Read c now r of
             Data buf \<Rightarrow>
               (if buf = [] then h
                else set_rpc d (R_Write buf) (map_src d (\<lambda>c. c\<lparr>rcvd := rcvd c @ buf\<rparr>) h))
           | EOF \<Rightarrow> set_rpc d R_CloseWrite (set_end d CopyEOF h)
           | ReadErr \<Rightarrow> set_rpc d R_CloseWrite (set_end d CopyErr h))
      | _ \<Rightarrow> h)"

text \<open>\<open>write_returns\<close> is the return of the \<open>Write\<close> the relay is blocked in.\<close>

definition write_returns :: "dir \<Rightarrow> write_result \<Rightarrow> nat \<Rightarrow> handler \<Rightarrow> handler" where
  "write_returns d w now h =
     (case (rpc_of d h, dst_of d h) of
        (R_Write buf, Some c) \<Rightarrow>
          (case conn_Write c now buf w of
             (n, ok) \<Rightarrow>
               (let h' = map_dst d (\<lambda>c. c\<lparr>written := written c @ take n buf\<rparr>) h
                in if ok then set_rpc d R_Read h'
                   else set_rpc d R_CloseWrite (set_end d CopyErr h')))
      | _ \<Rightarrow> h)"

text \<open>
  The statements after \<open>io.Copy\<close>: \<open>CloseWrite\<close> on the destination when it is a
  \<open>*net.TCPConn\<close>, then the send on \<open>done\<close>, which blocks when the channel is full.
\<close>

definition relay_step :: "dir \<Rightarrow> handler \<Rightarrow> handler" where
  "relay_step d h =
     (case rpc_of d h of
        R_CloseWrite \<Rightarrow>
          set_rpc d R_Send
            (map_dst d (\<lambda>c. if is_tcp c then c\<lparr>wr_closed := True\<rparr> else c) h)
      | R_Send \<Rightarrow>
          (if hdone h < 2 then set_rpc d R_Exited (h\<lparr>hdone := hdone h + 1\<rparr>) else h)
      | _ \<Rightarrow> h)"

subsection \<open>Stop (lines 54--61)\<close>

text \<open>
  \<open>close(p.done)\<close> panics on a closed channel. \<open>listener.Close()\<close> gives the port back
  to the system when the listener is open and returns an error, which \<open>Stop\<close> drops,
  when it is closed already. \<open>wg.Wait()\<close> blocks until the counter is zero.
\<close>

definition listener_Close :: "sys \<Rightarrow> sys" where
  "listener_Close s =
     (case listener (px s) of
        None \<Rightarrow> s
      | Some l \<Rightarrow>
          (if lopen l then
             s\<lparr>os := (os s)\<lparr>listening := listening (os s) - {lport l}\<rparr>,
               px := (px s)\<lparr>listener := Some (l\<lparr>lopen := False\<rparr>)\<rparr>,
               released := released s + 1\<rparr>
           else s))"

definition set_stopper :: "nat \<Rightarrow> spc \<Rightarrow> sys \<Rightarrow> sys" where
  "set_stopper j c s = s\<lparr>stoppers := (stoppers s)[j := c]\<rparr>"

definition stop_step :: "nat \<Rightarrow> sys \<Rightarrow> sys" where
  "stop_step j s =
     (case stoppers s ! j of
        S_CloseDone \<Rightarrow>
          (if done_closed (px s) then s\<lparr>panicked := True\<rparr>
           else set_stopper j S_CloseListener (s\<lparr>px := (px s)\<lparr>done_closed := True\<rparr>\<rparr>))
      | S_CloseListener \<Rightarrow> set_stopper j S_Wait (listener_Close s)
      | S_Wait \<Rightarrow> (if wg (px s) = 0 then set_stopper j S_Returned s else s)
      | S_Returned \<Rightarrow> s)"

subsection \<open>Time\<close>

text \<open>
  Statements take no time; time passes only while every goroutine is blocked, and not
  beyond the moment a pending timer fires: the dial timeout of a handler inside
  \<open>Dial\<close>, the deadline of a connection a relay is blocked on.
\<close>

definition conn_waits :: "conn option \<Rightarrow> nat \<Rightarrow> bool" where
  "conn_waits c t =
     (case c of None \<Rightarrow> False
      | Some c \<Rightarrow> \<not> closed c \<and> (case deadline c of None \<Rightarrow> True | Some d \<Rightarrow> t \<le> d))"

definition relay_waits :: "dir \<Rightarrow> handler \<Rightarrow> nat \<Rightarrow> bool" where
  "relay_waits d h t =
     (case rpc_of d h of
        R_Idle \<Rightarrow> True
      | R_Read \<Rightarrow> conn_waits (src_of d h) t
      | R_Write buf \<Rightarrow> conn_waits (dst_of d h) t
      | R_CloseWrite \<Rightarrow> False
      | R_Send \<Rightarrow> False
      | R_Exited \<Rightarrow> True)"

definition handler_waits :: "nat \<Rightarrow> handler \<Rightarrow> bool" where
  "handler_waits t h =
     ((case hpc h of
         H_Dial \<Rightarrow> t \<le> dial_start h + DialTimeout
       | H_Wait1 \<Rightarrow> hdone h = 0
       | H_Wait2 \<Rightarrow> hdone h = 0
       | H_Exited \<Rightarrow> True
       | _ \<Rightarrow> False)
      \<and> relay_waits Up h t \<and> relay_waits Down h t)"

definition accept_waits :: "sys \<Rightarrow> bool" where
  "accept_waits s =
     (case accept_pc s of
        A_Idle \<Rightarrow> True
      | A_Accept \<Rightarrow> listener_open (px s)
      | A_Exited \<Rightarrow> True
      | _ \<Rightarrow> False)"

definition stopper_waits :: "sys \<Rightarrow> spc \<Rightarrow> bool" where
  "stopper_waits s c =
     (case c of S_Wait \<Rightarrow> 0 < wg (px s) | S_Returned \<Rightarrow> True | _ \<Rightarrow> False)"

definition tick :: "nat \<Rightarrow> sys \<Rightarrow> sys" where
  "tick n s =
     (if accept_waits s \<and> list_all (handler_waits (clock s + n)) (handlers s)
         \<and> list_all (stopper_waits s) (stoppers s)
      then s\<lparr>clock := clock s + n\<rparr> else s)"

subsection \<open>Events and runs\<close>

datatype event =
    Tick nat
  | AcceptReturns bool
  | AcceptSelect
  | HandlerStep nat
  | DialReturns nat bool
  | ReadReturns nat dir read_result
  | WriteReturns nat dir write_result
  | RelayStep nat dir
  | StopCalled
  | StopStep nat

text \<open>A panic ends the process: nothing runs after it.\<close>

definition step :: "event \<Rightarrow> sys \<Rightarrow> sys" where
  "step e s =
     (if panicked s then s
      else case e of
        Tick n \<Rightarrow> tick n s
      | AcceptReturns ok \<Rightarrow> accept_returns ok s
      | AcceptSelect \<Rightarrow> accept_select s
      | HandlerStep i \<Rightarrow>
          (if i < length (handlers s) then handler_step i (handlers s ! i) s else s)
      | DialReturns i ok \<Rightarrow>
          (if i < length (handlers s) then dial_returns i (handlers s ! i) ok s else s)
      | ReadReturns i d r \<Rightarrow>
          (if i < length (handlers s)
           then set_handler i (read_returns d r (clock s) (handlers s ! i)) s else s)
      | WriteReturns i d w \<Rightarrow>
          (if i < length (handlers s)
           then set_handler i (write_returns d w (clock s) (handlers s ! i)) s else s)
      | RelayStep i d \<Rightarrow>
          (if i < length (handlers s)
           then set_handler i (relay_step d (handlers s ! i)) s else s)
      | StopCalled \<Rightarrow> s\<lparr>stoppers := stoppers s @ [S_CloseDone]\<rparr>
      | StopStep j \<Rightarrow> (if j < length (stoppers s) then stop_step j s else s))"

fun run :: "event list \<Rightarrow> sys \<Rightarrow> sys" where
  "run [] s = s"
| "run (e # es) s = run es (step e s)"

subsection \<open>The Manager (lines 136--159)\<close>

text \<open>
  \<open>Add\<close> holds the mutex from its first statement to its return, so it is one step of
  the manager. The proxies are kept with the program counter of their accept loop.
\<close>

record manager =
  proxies :: "(proxy \<times> apc) list"

definition NewManager :: manager where
  "NewManager = \<lparr>proxies = []\<rparr>"

definition Add :: "os \<Rightarrow> manager \<Rightarrow> int \<Rightarrow> string \<Rightarrow> int \<Rightarrow> error option \<times> os \<times> manager" where
  "Add k m localPort remoteHost remotePort =
     (case Start k (New localPort remoteHost remotePort) A_Idle of
        (Some err, k', p, a) \<Rightarrow> (Some err, k', m)
      | (None, k', p, a) \<Rightarrow> (None, k', m\<lparr>proxies := proxies m @ [(p, a)]\<rparr>))"

section \<open>Predicates on the states of a run\<close>

subsection \<open>Handlers\<close>

text \<open>
  Where a handler stands in its code: whether it has spawned its relays, how often it
  has received from \<open>done\<close>, and whether it has run \<open>local.Close()\<close> and
  \<open>remote.Close()\<close>; whether a relay has run \<open>CloseWrite\<close>; how many relays have sent on
  \<open>done\<close>.
\<close>

fun spawned :: "hpc \<Rightarrow> bool" where
  "spawned H_SetDeadline = False"
| "spawned H_Dial = False"
| "spawned H_SetRemoteDeadline = False"
| "spawned H_Relay = False"
| "spawned _ = True"

fun received :: "hpc \<Rightarrow> nat" where
  "received H_SetDeadline = 0"
| "received H_Dial = 0"
| "received H_SetRemoteDeadline = 0"
| "received H_Relay = 0"
| "received H_Wait1 = 0"
| "received H_Wait2 = 1"
| "received _ = 2"

fun local_closed_at :: "hpc \<Rightarrow> bool" where
  "local_closed_at H_Release = True"
| "local_closed_at H_WgDone = True"
| "local_closed_at H_Exited = True"
| "local_closed_at _ = False"

fun remote_closed_at :: "hpc \<Rightarrow> bool" where
  "remote_closed_at H_CloseLocal = True"
| "remote_closed_at pc = local_closed_at pc"

fun half_closed :: "rpc \<Rightarrow> bool" where
  "half_closed R_Send = True"
| "half_closed R_Exited = True"
| "half_closed _ = False"

definition sent :: "handler \<Rightarrow> nat" where
  "sent h = (if up h = R_Exited then 1 else 0) + (if down h = R_Exited then 1 else 0)"

text \<open>
  The program counters of a handler and of its relays fit together: without a remote
  connection the handler is before \<open>Dial\<close> has succeeded or in its first deferred
  function, and has no relay; with one, the relays exist exactly from the spawn on, and
  what the relays have sent on \<open>done\<close> is what is in the channel plus what the handler
  has received.
\<close>

definition hsync :: "handler \<Rightarrow> bool" where
  "hsync h =
     (case remote h of
        None \<Rightarrow> hpc h \<noteq> H_SetRemoteDeadline \<and> hpc h \<noteq> H_Relay \<and> hpc h \<noteq> H_Wait1
                 \<and> hpc h \<noteq> H_Wait2 \<and> hpc h \<noteq> H_CloseRemote
                 \<and> hdone h = 0 \<and> up h = R_Idle \<and> down h = R_Idle
      | Some r \<Rightarrow> hpc h \<noteq> H_SetDeadline \<and> hpc h \<noteq> H_Dial
                 \<and> hdone h + received (hpc h) = sent h
                 \<and> (up h = R_Idle) = (\<not> spawned (hpc h))
                 \<and> (down h = R_Idle) = (\<not> spawned (hpc h)))"

text \<open>
  The state of the two connections follows from the program counters: a connection is
  closed exactly when the handler is past its \<open>Close\<close>, and its write half is shut
  exactly when the relay writing to it is past \<open>CloseWrite\<close>.
\<close>

definition hconn :: "handler \<Rightarrow> bool" where
  "hconn h =
     ((case remote h of
         None \<Rightarrow> True
       | Some r \<Rightarrow> is_tcp r \<and> closed r = remote_closed_at (hpc h)
                  \<and> wr_closed r = half_closed (up h))
      \<and> is_tcp (local h)
      \<and> closed (local h) = local_closed_at (hpc h)
      \<and> wr_closed (local h) = half_closed (down h))"

definition remote_written :: "handler \<Rightarrow> byte list" where
  "remote_written h = (case remote h of None \<Rightarrow> [] | Some r \<Rightarrow> written r)"

definition remote_rcvd :: "handler \<Rightarrow> byte list" where
  "remote_rcvd h = (case remote h of None \<Rightarrow> [] | Some r \<Rightarrow> rcvd r)"

text \<open>
  What a relay has read (\<open>inp\<close>) against what it has written (\<open>out\<close>): the same bytes
  while it stands in \<open>Read\<close>, the chunk in its hand more while it stands in \<open>Write\<close>; once
  \<open>io.Copy\<close> has ended, the same bytes when it ended at the end of the stream, and a
  prefix otherwise.
\<close>

definition relayed :: "rpc \<Rightarrow> copy_end option \<Rightarrow> byte list \<Rightarrow> byte list \<Rightarrow> bool" where
  "relayed pc e inp out =
     (case pc of
        R_Idle \<Rightarrow> inp = [] \<and> out = [] \<and> e = None
      | R_Read \<Rightarrow> inp = out \<and> e = None
      | R_Write buf \<Rightarrow> inp = out @ buf \<and> e = None
      | _ \<Rightarrow> if e = Some CopyEOF then inp = out else prefix out inp)"

definition hbytes :: "handler \<Rightarrow> bool" where
  "hbytes h =
     (relayed (up h) (up_end h) (rcvd (local h)) (remote_written h)
      \<and> relayed (down h) (down_end h) (remote_rcvd h) (written (local h)))"

subsection \<open>Counting\<close>

text \<open>
  A handler holds an element of \<open>connSem\<close> until its \<open>\<leftarrow>p.connSem\<close>, and a count of the wait
  group until its \<open>wg.Done()\<close>; the accept loop holds a count while it runs. The
  semaphore and the wait group count exactly these.
\<close>

definition slot :: "handler \<Rightarrow> nat" where
  "slot h = (if hpc h = H_WgDone \<or> hpc h = H_Exited then 0 else 1)"

definition live :: "handler \<Rightarrow> nat" where
  "live h = (if hpc h = H_Exited then 0 else 1)"

fun accept_live :: "apc \<Rightarrow> nat" where
  "accept_live A_Idle = 0"
| "accept_live A_Exited = 0"
| "accept_live _ = 1"

definition slots :: "sys \<Rightarrow> nat" where
  "slots s = sum_list (map slot (handlers s))"

definition lives :: "sys \<Rightarrow> nat" where
  "lives s = sum_list (map live (handlers s))"

definition counted :: "sys \<Rightarrow> bool" where
  "counted s =
     (connSem (px s) = slots s
      \<and> connSem (px s) \<le> MaxConnectionsPerProxy
      \<and> wg (px s) = accept_live (accept_pc s) + lives s)"

text \<open>Every handler of the system is well-formed.\<close>

definition wf :: "sys \<Rightarrow> bool" where
  "wf s = (list_all hsync (handlers s) \<and> list_all hconn (handlers s) \<and> list_all hbytes (handlers s))"

subsection \<open>The listener and the calls of Stop\<close>

text \<open>
  The listener of a started proxy: it has been given back to the system once when it is
  closed and never when it is open; its port is listening exactly while it is open; the
  port is one \<open>net.Listen\<close> binds for \<open>LocalPort\<close>: the port read from it, or a port of
  the ephemeral range when that is 0.
\<close>

definition port_ok :: "os \<Rightarrow> int \<Rightarrow> int \<Rightarrow> bool" where
  "port_ok k p q =
     (0 \<le> p \<and> p \<le> 65535
      \<and> (if p = 0 then q \<in> set (ephemeral k) else q = p \<and> (p < 1024 \<longrightarrow> privileged k)))"

definition listener_ok :: "net_Listener option \<Rightarrow> nat \<Rightarrow> os \<Rightarrow> int \<Rightarrow> bool" where
  "listener_ok lo rel k port =
     (case lo of
        None \<Rightarrow> False
      | Some l \<Rightarrow>
          rel = (if lopen l then 0 else 1)
          \<and> (lport l \<in> listening k) = lopen l
          \<and> (case parsePort (fmt_d port) of None \<Rightarrow> False | Some p \<Rightarrow> port_ok k p (lport l)))"

definition listener_inv :: "sys \<Rightarrow> bool" where
  "listener_inv s = listener_ok (listener (px s)) (released s) (os s) (LocalPort (px s))"

definition all_exited :: "sys \<Rightarrow> bool" where
  "all_exited s = (accept_pc s = A_Exited \<and> list_all (\<lambda>h. hpc h = H_Exited) (handlers s))"

text \<open>What a step that is not \<open>listener.Close()\<close> leaves alone.\<close>

definition frame :: "sys \<Rightarrow> sys \<Rightarrow> bool" where
  "frame s s' =
     (os s' = os s \<and> listener (px s') = listener (px s) \<and> LocalPort (px s') = LocalPort (px s)
      \<and> released s' = released s)"

text \<open>
  A call of \<open>Stop\<close> past \<open>close(p.done)\<close> has closed \<open>done\<close>, and one past
  \<open>listener.Close()\<close> has closed the listener.
\<close>

definition stops :: "sys \<Rightarrow> bool" where
  "stops s =
     (list_all (\<lambda>c. c = S_CloseDone \<or> done_closed (px s)) (stoppers s)
      \<and> list_all (\<lambda>c. c = S_CloseDone \<or> c = S_CloseListener \<or> \<not> listener_open (px s)) (stoppers s))"

text \<open>What a step of the accept loop, of a handler or of a relay leaves alone.\<close>

definition frame2 :: "sys \<Rightarrow> sys \<Rightarrow> bool" where
  "frame2 s s' =
     (stoppers s' = stoppers s \<and> done_closed (px s') = done_closed (px s)
      \<and> listener (px s') = listener (px s))"

text \<open>When a call of \<open>Stop\<close> has returned, the accept loop and every handler have returned.\<close>

definition returned :: "sys \<Rightarrow> bool" where
  "returned s = (S_Returned \<in> set (stoppers s) \<longrightarrow> all_exited s)"

definition started :: "sys \<Rightarrow> bool" where
  "started s = (accept_pc s \<noteq> A_Idle)"

subsection \<open>Time\<close>

text \<open>
  A handler before \<open>Dial\<close> is still at the moment it was accepted; inside \<open>Dial\<close> the dial
  timeout has not passed; a handler whose \<open>Dial\<close> failed closes the local connection
  within the dial timeout. The deadline of the local connection, once set, is the
  moment it was set plus \<open>ConnectionTimeout\<close>.
\<close>

definition closed_by :: "nat option \<Rightarrow> nat \<Rightarrow> bool" where
  "closed_by c t = (case c of None \<Rightarrow> True | Some u \<Rightarrow> u \<le> t)"

definition htimed :: "nat \<Rightarrow> handler \<Rightarrow> bool" where
  "htimed now h =
     ((hpc h = H_SetDeadline \<longrightarrow> now = t_accept h)
      \<and> (hpc h = H_Dial \<longrightarrow> dial_start h = t_accept h \<and> now \<le> t_accept h + DialTimeout)
      \<and> (remote h = None \<longrightarrow> hpc h = H_CloseLocal \<longrightarrow> now \<le> t_accept h + DialTimeout)
      \<and> (remote h = None \<longrightarrow> closed_by (t_closed h) (t_accept h + DialTimeout))
      \<and> (remote h = None \<longrightarrow> hpc h = H_SetDeadline \<or> hpc h = H_Dial \<or> hpc h = H_CloseLocal
            \<longrightarrow> t_closed h = None)
      \<and> (hpc h \<noteq> H_SetDeadline \<longrightarrow> deadline (local h) = Some (dial_start h + ConnectionTimeout)))"

fun accept_timed :: "nat \<Rightarrow> apc \<Rightarrow> bool" where
  "accept_timed now (A_GotConn t) = (now = t)"
| "accept_timed now _ = True"

definition timed :: "sys \<Rightarrow> bool" where
  "timed s = (list_all (htimed (clock s)) (handlers s) \<and> accept_timed (clock s) (accept_pc s))"

subsection \<open>The connections turned away\<close>

text \<open>A connection the accept loop turned away is closed and has carried no byte.\<close>

definition untouched :: "conn \<Rightarrow> bool" where
  "untouched c = (closed c \<and> rcvd c = [] \<and> written c = [])"

definition rejects :: "sys \<Rightarrow> bool" where
  "rejects s = list_all untouched (rejected s)"

subsection \<open>The invariant\<close>

definition Inv :: "sys \<Rightarrow> bool" where
  "Inv s =
     (wf s \<and> counted s \<and> listener_inv s \<and> stops s \<and> returned s \<and> started s \<and> timed s
      \<and> rejects s)"

subsection \<open>Notions the claims speak of\<close>




text \<open>
  A handler is in flight from the moment it is spawned until it has given its slot
  back; after that it has closed its connections and only \<open>wg.Done()\<close> is left of it.
\<close>

definition flying :: "handler \<Rightarrow> bool" where
  "flying h = (hpc h \<noteq> H_WgDone \<and> hpc h \<noteq> H_Exited)"

definition in_flight :: "sys \<Rightarrow> nat" where
  "in_flight s = length (filter flying (handlers s))"

definition landed :: "handler \<Rightarrow> bool" where
  "landed h =
     (flying h \<or> (closed (local h) \<and> (case remote h of None \<Rightarrow> True | Some r \<Rightarrow> closed r)))"

text \<open>The handlers that have not returned.\<close>

definition running :: "sys \<Rightarrow> nat" where
  "running s = length (filter (\<lambda>h. hpc h \<noteq> H_Exited) (handlers s))"

text \<open>\<open>n\<close> clients connect one after the other while no handler finishes.\<close>

fun burst :: "nat \<Rightarrow> event list" where
  "burst 0 = []"
| "burst (Suc n) = AcceptReturns True # AcceptSelect # burst n"

definition turned_away :: conn where
  "turned_away = new_conn\<lparr>closed := True\<rparr>"

section \<open>Concrete runs\<close>

text \<open>
  A host with no listener, no privilege and two ephemeral ports; a proxy
  started on it at time 0, from port 8000 to \<open>10.0.0.5:3000\<close>; that proxy after one call
  of \<open>Stop\<close> has returned; a manager with that proxy as its only member.
\<close>

definition host0 :: os where
  "host0 = \<lparr>listening = {}, privileged = False, ephemeral = [40000, 40001]\<rparr>"

definition booted :: sys where
  "booted = snd (boot host0 8000 ''10.0.0.5'' 3000 0)"

definition stopped_once :: sys where
  "stopped_once =
     run [StopCalled, StopStep 0, StopStep 0, AcceptReturns False, AcceptSelect, StopStep 0] booted"

text \<open>
  A proxy whose \<open>Start\<close> failed, port 70000 being no port; and that proxy after one call
  of \<open>Stop\<close> has returned.
\<close>

definition unbound :: sys where
  "unbound = snd (boot host0 70000 ''10.0.0.5'' 3000 0)"

definition unbound_stopped :: sys where
  "unbound_stopped = run [StopCalled, StopStep 0, StopStep 0, StopStep 0] unbound"

definition one_member :: "os \<times> manager" where
  "one_member = snd (Add host0 NewManager 8000 ''10.0.0.5'' 3000)"








text \<open>
  A client connects to a proxy whose backend does not answer: the handler is inside
  \<open>Dial\<close> when the dial timeout has run out, and then \<open>Dial\<close> has returned.
\<close>

definition dialling :: "event list" where
  "dialling = [AcceptReturns True, AcceptSelect, HandlerStep 0, Tick (5 * second)]"

definition dial_conn :: conn where
  "dial_conn = \<lparr>is_tcp = True, deadline = Some 30000000000, wr_closed = False, closed = False,
     rcvd = [], written = []\<rparr>"

definition dial_handler :: handler where
  "dial_handler =
     \<lparr>hpc = H_Dial, local = dial_conn, remote = None, up = R_Idle, up_end = None,
      down = R_Idle, down_end = None, hdone = 0, t_accept = 0, dial_start = 0,
      t_closed = None\<rparr>"

text \<open>
  \<open>MaxConnectionsPerProxy\<close> clients are connected and one more has just been accepted.
\<close>

definition gate_full :: sys where
  "gate_full = run (burst MaxConnectionsPerProxy @ [AcceptReturns True]) booted"

text \<open>
  A client connects, \<open>Dial\<close> fails, and the handler has closed the connection and given
  its slot back: \<open>wg.Done()\<close> is all it has left to do.
\<close>

definition parked :: "event list" where
  "parked =
     [AcceptReturns True, AcceptSelect, HandlerStep 0, DialReturns 0 False, HandlerStep 0,
      HandlerStep 0]"

definition parked_handler :: handler where
  "parked_handler =
     \<lparr>hpc = H_WgDone,
      local = \<lparr>is_tcp = True, deadline = Some (30 * second), wr_closed = False, closed = True,
                rcvd = [], written = []\<rparr>,
      remote = None, up = R_Idle, up_end = None, down = R_Idle, down_end = None, hdone = 0,
      t_accept = 0, dial_start = 0, t_closed = Some 0\<rparr>"

text \<open>
  A client that sends one byte every ten seconds, echoed at once by the backend. The
  fourth byte comes thirty seconds after the connection was accepted, ten seconds
  after the third.
\<close>

definition busy_session :: "event list" where
  "busy_session =
     [AcceptReturns True, AcceptSelect, HandlerStep 0, DialReturns 0 True, HandlerStep 0,
      HandlerStep 0,
      ReadReturns 0 Up (Data [1]), WriteReturns 0 Up WriteOk,
      ReadReturns 0 Down (Data [1]), WriteReturns 0 Down WriteOk,
      Tick (10 * second),
      ReadReturns 0 Up (Data [2]), WriteReturns 0 Up WriteOk,
      ReadReturns 0 Down (Data [2]), WriteReturns 0 Down WriteOk,
      Tick (10 * second),
      ReadReturns 0 Up (Data [3]), WriteReturns 0 Up WriteOk,
      ReadReturns 0 Down (Data [3]), WriteReturns 0 Down WriteOk,
      Tick (10 * second)]"

definition busy_conn :: conn where
  "busy_conn = \<lparr>is_tcp = True, deadline = Some (30 * second), wr_closed = False, closed = False,
     rcvd = [1, 2, 3], written = [1, 2, 3]\<rparr>"

definition busy_handler :: handler where
  "busy_handler =
     \<lparr>hpc = H_Wait1, local = busy_conn, remote = Some busy_conn, up = R_Read, up_end = None,
      down = R_Read, down_end = None, hdone = 0, t_accept = 0, dial_start = 0,
      t_closed = None\<rparr>"

text \<open>
  The session goes on: the client sends its fourth byte, at thirty seconds, the backend
  has nothing more to send, and the handler runs to its end.
\<close>

definition cut_short :: "event list" where
  "cut_short =
     busy_session
     @ [ReadReturns 0 Up (Data [4]), ReadReturns 0 Down ReadErr,
        RelayStep 0 Up, RelayStep 0 Up, RelayStep 0 Down, RelayStep 0 Down,
        HandlerStep 0, HandlerStep 0, HandlerStep 0, HandlerStep 0, HandlerStep 0,
        HandlerStep 0]"

text \<open>
  The bytes a run offers to the reads of relay \<open>d\<close> of handler \<open>i\<close>: for \<open>Up\<close>, what
  the client has written to its connection.
\<close>

fun offered :: "nat \<Rightarrow> dir \<Rightarrow> event list \<Rightarrow> byte list" where
  "offered i d [] = []"
| "offered i d (ReadReturns j d' (Data buf) # es) =
     (if j = i \<and> d' = d then buf @ offered i d es else offered i d es)"
| "offered i d (e # es) = offered i d es"

section \<open>The port of an address\<close>

lemma digit_ok: "n < 10 \<Longrightarrow> is_digit (digit n) \<and> digit_val (digit n) = n"
proof -
  assume "n < 10"
  then have "n \<in> {0, 1, 2, 3, 4, 5, 6, 7, 8, 9}" by auto
  then show ?thesis
    by (auto simp: digit_def is_digit_def digit_val_def)
qed

lemma digit_no_sign: "is_digit c \<Longrightarrow> c \<noteq> CHR ''+'' \<and> c \<noteq> CHR ''-''"
  by (auto simp: is_digit_def)

lemma scan_fmt_nat: "n < 4294967296 \<Longrightarrow> foldl scan_step (Run 0) (fmt_nat n) = Run n"
proof (induction n rule: fmt_nat.induct)
  case (1 n)
  show ?case
  proof (cases "n < 10")
    case True
    then show ?thesis
      using digit_ok [of n] by (simp add: fmt_nat.simps [of n] cutoff_def)
  next
    case False
    have "foldl scan_step (Run 0) (fmt_nat (n div 10)) = Run (n div 10)"
      using 1 False by simp
    moreover have "n div 10 < cutoff" using "1.prems" by (simp add: cutoff_def)
    moreover have "n div 10 * 10 + n mod 10 = n" by simp
    moreover have "n div 10 * 10 < 4294967296" using "1.prems" by arith
    ultimately show ?thesis
      using False digit_ok [of "n mod 10"] "1.prems"
      by (simp add: fmt_nat.simps [of n] Let_def)
  qed
qed

lemma fmt_nat_head: "\<exists>c cs. fmt_nat n = c # cs \<and> is_digit c"
proof (induction n rule: fmt_nat.induct)
  case (1 n)
  show ?case
  proof (cases "n < 10")
    case True
    then show ?thesis using digit_ok [of n] by (simp add: fmt_nat.simps [of n])
  next
    case False
    then obtain c cs where "fmt_nat (n div 10) = c # cs \<and> is_digit c" using 1 by blast
    then show ?thesis using False by (simp add: fmt_nat.simps [of n])
  qed
qed

lemma parsePort_fmt_nat:
  "parsePort (fmt_nat n) = finish False (foldl scan_step (Run 0) (fmt_nat n))"
proof -
  obtain c cs where h: "fmt_nat n = c # cs" "is_digit c"
    using fmt_nat_head by blast
  show ?thesis
    unfolding h(1) using digit_no_sign [OF h(2)] by (simp add: parsePort_def)
qed

lemma parsePort_nonneg:
  assumes "0 \<le> i" "i < 4294967296"
  shows "parsePort (fmt_d i) = Some (if int cutoff \<le> i then int cutoff - 1 else i)"
proof -
  have "foldl scan_step (Run 0) (fmt_nat (nat i)) = Run (nat i)"
    using assms by (intro scan_fmt_nat) simp
  then show ?thesis
    using assms by (auto simp: parsePort_fmt_nat fmt_d_def finish_def Let_def cutoff_def)
qed

lemma parsePort_neg:
  assumes "i < 0" "- 4294967296 < i"
  shows "parsePort (fmt_d i) = Some (if int cutoff < - i then - int cutoff else i)"
proof -
  have "foldl scan_step (Run 0) (fmt_nat (nat (- i))) = Run (nat (- i))"
    using assms by (intro scan_fmt_nat) simp
  then show ?thesis
    using assms by (auto simp: parsePort_def fmt_d_def finish_def Let_def cutoff_def)
qed

lemma parsePort_small: "0 \<le> i \<Longrightarrow> i \<le> 65535 \<Longrightarrow> parsePort (fmt_d i) = Some i"
  by (simp add: parsePort_nonneg cutoff_def)

lemma net_Listen_small:
  "0 \<le> i \<Longrightarrow> i \<le> 65535 \<Longrightarrow> net_Listen k i = tcp_bind k i"
  by (simp add: net_Listen_def parsePort_small)

lemma net_Listen_refused:
  assumes "(- 4294967296 < i \<and> i < 0) \<or> (65535 < i \<and> i < 4294967296)"
  shows "net_Listen k i = Inl InvalidPort"
proof (cases "i < 0")
  case True
  then show ?thesis
    using assms by (simp add: net_Listen_def parsePort_neg cutoff_def)
next
  case False
  then show ?thesis
    using assms by (simp add: net_Listen_def parsePort_nonneg cutoff_def)
qed

lemma net_Listen_wraps: "net_Listen k 4294975296 = tcp_bind k 8000"
  by (simp add: net_Listen_def parsePort_def fmt_d_def fmt_nat.simps digit_def finish_def
        is_digit_def digit_val_def cutoff_def Let_def)

lemma net_Listen_bound:
  assumes "net_Listen k port = Inr (q, k')"
  shows "k' = k\<lparr>listening := insert q (listening k)\<rparr> \<and> q \<notin> listening k
    \<and> (\<exists>p. parsePort (fmt_d port) = Some p \<and> port_ok k p q)"
proof -
  obtain p where p: "parsePort (fmt_d port) = Some p" "0 \<le> p" "p \<le> 65535"
    "tcp_bind k p = Inr (q, k')"
    using assms by (auto simp: net_Listen_def split: option.splits if_splits)
  show ?thesis
  proof (cases "p = 0")
    case True
    then have f: "find (\<lambda>q. q \<notin> listening k) (ephemeral k) = Some q"
      and k': "k' = k\<lparr>listening := insert q (listening k)\<rparr>"
      using p(4) by (auto simp: tcp_bind_def split: option.splits)
    have "q \<in> set (ephemeral k) \<and> q \<notin> listening k"
      using f by (auto simp: find_Some_iff)
    then show ?thesis using p True k' by (simp add: port_ok_def)
  next
    case False
    then show ?thesis
      using p by (auto simp: tcp_bind_def port_ok_def split: if_splits)
  qed
qed


section \<open>Every step keeps the invariant\<close>

subsection \<open>Handlers\<close>

lemma hsync_new: "hsync (new_handler t)"
  by (simp add: hsync_def new_handler_def)

lemma hsync_read: "hsync h \<Longrightarrow> hsync (read_returns d r now h)"
  by (cases d; cases "rpc_of d h")
     (auto simp: hsync_def read_returns_def rpc_of_def src_of_def set_rpc_def set_end_def map_src_def
        sent_def split: read_result.splits option.splits)

lemma hsync_write: "hsync h \<Longrightarrow> hsync (write_returns d w now h)"
  by (cases d; cases "rpc_of d h")
     (auto simp: hsync_def write_returns_def rpc_of_def dst_of_def set_rpc_def set_end_def map_dst_def
        sent_def Let_def split: option.splits prod.splits)

lemma hsync_relay: "hsync h \<Longrightarrow> hsync (relay_step d h)"
  by (cases d; cases "rpc_of d h")
     (auto simp: hsync_def relay_step_def rpc_of_def dst_of_def set_rpc_def set_end_def map_dst_def
        sent_def Let_def split: option.splits prod.splits)

lemma hconn_new: "hconn (new_handler t)"
  by (simp add: hconn_def new_handler_def new_conn_def)

lemma hconn_read: "hconn h \<Longrightarrow> hconn (read_returns d r now h)"
  by (cases d; cases "rpc_of d h")
     (auto simp: hconn_def read_returns_def rpc_of_def src_of_def set_rpc_def set_end_def map_src_def
        split: read_result.splits option.splits)

lemma hconn_write: "hconn h \<Longrightarrow> hconn (write_returns d w now h)"
  by (cases d; cases "rpc_of d h")
     (auto simp: hconn_def write_returns_def rpc_of_def dst_of_def set_rpc_def set_end_def map_dst_def
        Let_def split: option.splits prod.splits)

lemma hconn_relay: "hconn h \<Longrightarrow> hconn (relay_step d h)"
  by (cases d; cases "rpc_of d h")
     (auto simp: hconn_def relay_step_def rpc_of_def dst_of_def set_rpc_def set_end_def map_dst_def
        Let_def split: option.splits prod.splits)

lemma hbytes_new: "hbytes (new_handler t)"
  by (simp add: hbytes_def new_handler_def new_conn_def relayed_def remote_written_def remote_rcvd_def)

lemma relayed_read_data: "relayed R_Read e inp out \<Longrightarrow> relayed (R_Write buf) e (inp @ buf) out"
  by (simp add: relayed_def)

lemma relayed_read_end: "relayed R_Read e inp out \<Longrightarrow> relayed R_CloseWrite e' inp out"
  by (simp add: relayed_def)

lemma relayed_write_ok: "relayed (R_Write buf) e inp out \<Longrightarrow> relayed R_Read e inp (out @ buf)"
  by (simp add: relayed_def)

lemma relayed_write_err:
  "relayed (R_Write buf) e inp out \<Longrightarrow> relayed R_CloseWrite (Some CopyErr) inp (out @ take n buf)"
  by (simp add: relayed_def take_is_prefix)

lemma relayed_close: "relayed R_CloseWrite e inp out \<Longrightarrow> relayed R_Send e inp out"
  by (simp add: relayed_def)

lemma relayed_send: "relayed R_Send e inp out \<Longrightarrow> relayed R_Exited e inp out"
  by (simp add: relayed_def)

lemma relayed_spawn: "relayed R_Idle e inp out \<Longrightarrow> relayed R_Read e inp out"
  by (simp add: relayed_def)

lemmas relayed_moves = relayed_read_data relayed_read_end relayed_write_ok relayed_write_err
  relayed_close relayed_send relayed_spawn

lemma hbytes_read: "hsync h \<Longrightarrow> hbytes h \<Longrightarrow> hbytes (read_returns d r now h)"
  by (cases d; cases "rpc_of d h")
     (auto simp: hbytes_def hsync_def read_returns_def rpc_of_def src_of_def set_rpc_def set_end_def map_src_def
        remote_written_def remote_rcvd_def
        split: read_result.splits option.splits intro: relayed_moves)

lemma conn_Write_ok: "conn_Write c now buf w = (n, True) \<Longrightarrow> n = length buf"
  by (auto simp: conn_Write_def split: if_splits write_result.splits)

lemma hbytes_write: "hsync h \<Longrightarrow> hbytes h \<Longrightarrow> hbytes (write_returns d w now h)"
  by (cases d; cases "rpc_of d h")
     (auto simp: hbytes_def hsync_def write_returns_def rpc_of_def dst_of_def set_rpc_def set_end_def map_dst_def
        remote_written_def remote_rcvd_def
        Let_def split: option.splits prod.splits intro: relayed_moves dest!: conn_Write_ok)

lemma hbytes_relay: "hbytes h \<Longrightarrow> hbytes (relay_step d h)"
  by (cases d; cases "rpc_of d h")
     (auto simp: hbytes_def relay_step_def rpc_of_def dst_of_def set_rpc_def set_end_def map_dst_def
        remote_written_def remote_rcvd_def
        Let_def split: option.splits intro: relayed_moves)

lemma list_all_update:
  "list_all P xs \<Longrightarrow> P y \<Longrightarrow> list_all P (xs[i := y])"
  using set_update_subset_insert [of xs i y] by (auto simp: list_all_iff)

lemma list_all_nth: "list_all P xs \<Longrightarrow> i < length xs \<Longrightarrow> P (xs ! i)"
  by (simp add: list_all_iff)

lemma handlers_wg_Done [simp]: "handlers (wg_Done s) = handlers s"
  by (simp add: wg_Done_def)

lemma handlers_wg_Add [simp]: "handlers (wg_Add s) = handlers s"
  by (simp add: wg_Add_def)

lemma handlers_set_handler [simp]: "handlers (set_handler i h s) = (handlers s)[i := h]"
  by (simp add: set_handler_def)

lemma hsync_handler_step:
  "hsync h \<Longrightarrow> list_all hsync (handlers s) \<Longrightarrow> list_all hsync (handlers (handler_step i h s))"
  by (cases "hpc h"; cases "remote h")
     (auto simp: handler_step_def hsync_def sent_def intro!: list_all_update)

lemma hconn_handler_step:
  "hsync h \<Longrightarrow> hconn h \<Longrightarrow> list_all hconn (handlers s) \<Longrightarrow> list_all hconn (handlers (handler_step i h s))"
  by (cases "hpc h"; cases "remote h")
     (auto simp: handler_step_def hsync_def hconn_def intro!: list_all_update)

lemma hbytes_handler_step:
  "hsync h \<Longrightarrow> hbytes h \<Longrightarrow> list_all hbytes (handlers s) \<Longrightarrow> list_all hbytes (handlers (handler_step i h s))"
  by (cases "hpc h"; cases "remote h")
     (auto simp: handler_step_def hsync_def hbytes_def remote_written_def remote_rcvd_def
        intro!: list_all_update intro: relayed_moves)

lemma hsync_dial:
  "hsync h \<Longrightarrow> list_all hsync (handlers s) \<Longrightarrow> list_all hsync (handlers (dial_returns i h ok s))"
  by (cases "remote h")
     (auto simp: dial_returns_def hsync_def sent_def intro!: list_all_update)

lemma hconn_dial:
  "hsync h \<Longrightarrow> hconn h \<Longrightarrow> list_all hconn (handlers s) \<Longrightarrow> list_all hconn (handlers (dial_returns i h ok s))"
  by (cases "remote h")
     (auto simp: dial_returns_def hsync_def hconn_def new_conn_def intro!: list_all_update)

lemma hbytes_dial:
  "hsync h \<Longrightarrow> hbytes h \<Longrightarrow> list_all hbytes (handlers s) \<Longrightarrow> list_all hbytes (handlers (dial_returns i h ok s))"
  by (cases "remote h")
     (auto simp: dial_returns_def hsync_def hbytes_def new_conn_def remote_written_def remote_rcvd_def
         relayed_def intro!: list_all_update)

subsection \<open>Counting\<close>

lemma sum_map_update:
  fixes f :: "'a \<Rightarrow> nat"
  shows "i < length xs \<Longrightarrow> sum_list (map f (xs[i := y])) + f (xs ! i) = sum_list (map f xs) + f y"
proof (induction xs arbitrary: i)
  case Nil
  then show ?case by simp
next
  case (Cons x xs)
  then show ?case by (cases i) auto
qed

lemma sum_map_update_same:
  fixes f :: "'a \<Rightarrow> nat"
  shows "i < length xs \<Longrightarrow> f y = f (xs ! i) \<Longrightarrow> sum_list (map f (xs[i := y])) = sum_list (map f xs)"
  using sum_map_update [of i xs f y] by simp

lemma hpc_read [simp]: "hpc (read_returns d r now h) = hpc h"
  by (cases d; cases "rpc_of d h")
     (auto simp: read_returns_def rpc_of_def src_of_def set_rpc_def set_end_def map_src_def
        split: read_result.splits option.splits)

lemma hpc_write [simp]: "hpc (write_returns d w now h) = hpc h"
  by (cases d; cases "rpc_of d h")
     (auto simp: write_returns_def rpc_of_def dst_of_def set_rpc_def set_end_def map_dst_def
        Let_def split: option.splits prod.splits)

lemma hpc_relay [simp]: "hpc (relay_step d h) = hpc h"
  by (cases d; cases "rpc_of d h")
     (auto simp: relay_step_def rpc_of_def set_rpc_def map_dst_def)

lemma counted_relay:
  assumes "counted s" "i < length (handlers s)" "hpc h' = hpc (handlers s ! i)"
  shows "counted (set_handler i h' s)"
  using assms
  by (simp add: counted_def slots_def lives_def set_handler_def sum_map_update_same slot_def live_def)

lemma sum_map_upd:
  fixes f :: "'a \<Rightarrow> nat"
  shows "i < length xs \<Longrightarrow>
    sum_list (map f (xs[i := y])) = sum_list (map f (take i xs)) + f y + sum_list (map f (drop (Suc i) xs))"
  by (simp add: upd_conv_take_nth_drop)

lemma sum_map_nth:
  fixes f :: "'a \<Rightarrow> nat"
  shows "i < length xs \<Longrightarrow>
    sum_list (map f xs) = sum_list (map f (take i xs)) + f (xs ! i) + sum_list (map f (drop (Suc i) xs))"
  using sum_map_upd [of i xs f "xs ! i"] by simp

lemma counted_handler_step:
  assumes "counted s" "i < length (handlers s)"
  shows "counted (handler_step i (handlers s ! i) s)"
proof -
  let ?h = "handlers s ! i"
  note upd = sum_map_upd [OF assms(2)]
  note nth = sum_map_nth [OF assms(2), of slot] sum_map_nth [OF assms(2), of live]
  show ?thesis
    using assms(1)
    by (cases "hpc ?h")
       (simp_all add: handler_step_def counted_def wg_Done_def set_handler_def slots_def lives_def
          upd nth slot_def live_def)
qed

lemma counted_dial:
  assumes "counted s" "i < length (handlers s)"
  shows "counted (dial_returns i (handlers s ! i) ok s)"
proof -
  let ?h = "handlers s ! i"
  note upd = sum_map_upd [OF assms(2)]
  note nth = sum_map_nth [OF assms(2), of slot] sum_map_nth [OF assms(2), of live]
  show ?thesis
    using assms(1)
    by (auto simp: dial_returns_def counted_def set_handler_def slots_def lives_def
          upd nth slot_def live_def)
qed

lemma counted_accept_returns: "counted s \<Longrightarrow> counted (accept_returns ok s)"
  by (simp add: accept_returns_def counted_def slots_def lives_def)

lemma counted_accept_select: "counted s \<Longrightarrow> counted (accept_select s)"
  by (cases "accept_pc s")
     (auto simp: accept_select_def counted_def slots_def lives_def wg_Done_def wg_Add_def
        slot_def live_def new_handler_def)

lemma counted_tick: "counted s \<Longrightarrow> counted (tick n s)"
  by (simp add: tick_def counted_def slots_def lives_def)

lemma counted_stop: "counted s \<Longrightarrow> counted (stop_step j s)"
  by (cases "stoppers s ! j")
     (auto simp: stop_step_def counted_def slots_def lives_def set_stopper_def listener_Close_def
        split: option.splits)

lemma counted_stop_called: "counted s \<Longrightarrow> counted (s\<lparr>stoppers := stoppers s @ [S_CloseDone]\<rparr>)"
  by (simp add: counted_def slots_def lives_def)

lemma counted_step: "counted s \<Longrightarrow> counted (step e s)"
  by (cases e)
     (auto simp: step_def counted_relay counted_handler_step counted_dial counted_accept_returns
        counted_accept_select counted_tick counted_stop counted_stop_called)

subsection \<open>Well-formed handlers\<close>

lemma handlers_tick [simp]: "handlers (tick n s) = handlers s"
  by (simp add: tick_def)

lemma handlers_accept_returns [simp]: "handlers (accept_returns ok s) = handlers s"
  by (simp add: accept_returns_def)

lemma handlers_stop_step [simp]: "handlers (stop_step j s) = handlers s"
  by (cases "stoppers s ! j")
     (auto simp: stop_step_def set_stopper_def listener_Close_def split: option.splits)

lemma handlers_accept_select:
  "handlers (accept_select s) = handlers s
   \<or> (\<exists>t. accept_pc s = A_GotConn t \<and> handlers (accept_select s) = handlers s @ [new_handler t])"
  by (cases "accept_pc s") (auto simp: accept_select_def)

lemma wf_step: "wf s \<Longrightarrow> wf (step e s)"
proof (cases e)
  case AcceptSelect
  assume "wf s"
  then show ?thesis
    using handlers_accept_select [of s] AcceptSelect
    by (auto simp: wf_def step_def hsync_new hconn_new hbytes_new)
next
  case (HandlerStep i)
  assume "wf s"
  then show ?thesis
    using HandlerStep
    by (auto simp: wf_def step_def list_all_nth hsync_handler_step hconn_handler_step
          hbytes_handler_step)
next
  case (DialReturns i ok)
  assume "wf s"
  then show ?thesis
    using DialReturns
    by (auto simp: wf_def step_def list_all_nth hsync_dial hconn_dial hbytes_dial)
next
  case (ReadReturns i d r)
  assume "wf s"
  then show ?thesis
    using ReadReturns
    by (auto simp: wf_def step_def list_all_nth hsync_read hconn_read hbytes_read
          intro!: list_all_update)
next
  case (WriteReturns i d w)
  assume "wf s"
  then show ?thesis
    using WriteReturns
    by (auto simp: wf_def step_def list_all_nth hsync_write hconn_write hbytes_write
          intro!: list_all_update)
next
  case (RelayStep i d)
  assume "wf s"
  then show ?thesis
    using RelayStep
    by (auto simp: wf_def step_def list_all_nth hsync_relay hconn_relay hbytes_relay
          intro!: list_all_update)
qed (auto simp: wf_def step_def)

subsection \<open>The listener and the calls of Stop\<close>

lemma frame_refl [simp]: "frame s s"
  by (simp add: frame_def)

lemma frame_wg_Done [simp]: "frame s (wg_Done s') = frame s s'"
  by (simp add: frame_def wg_Done_def)

lemma frame_wg_Add [simp]: "frame s (wg_Add s') = frame s s'"
  by (simp add: frame_def wg_Add_def)

lemma frame_set_handler [simp]: "frame s (set_handler i h s') = frame s s'"
  by (simp add: frame_def set_handler_def)

lemma frame_set_stopper [simp]: "frame s (set_stopper i h s') = frame s s'"
  by (simp add: frame_def set_stopper_def)

lemma frame_handler_step: "frame s (handler_step i h s)"
  by (cases "hpc h") (simp_all add: handler_step_def, simp_all add: frame_def)

lemma frame_dial: "frame s (dial_returns i h ok s)"
  by (simp add: dial_returns_def)

lemma frame_accept_returns: "frame s (accept_returns ok s)"
  by (simp add: accept_returns_def frame_def)

lemma frame_accept_select: "frame s (accept_select s)"
  by (cases "accept_pc s") (simp_all add: accept_select_def, simp_all add: frame_def)

lemma frame_tick: "frame s (tick n s)"
  by (simp add: tick_def frame_def)

lemma listener_inv_frame: "frame s s' \<Longrightarrow> listener_inv s \<Longrightarrow> listener_inv s'"
  by (simp add: frame_def listener_inv_def)

lemma listener_inv_Close: "listener_inv s \<Longrightarrow> listener_inv (listener_Close s)"
  by (auto simp: listener_inv_def listener_ok_def listener_Close_def port_ok_def
        split: option.splits if_splits)

lemma frame_stop_step: "stoppers s ! j \<noteq> S_CloseListener \<Longrightarrow> frame s (stop_step j s)"
  by (cases "stoppers s ! j") (simp_all add: stop_step_def, simp_all add: frame_def)

lemma listener_inv_stop_step: "listener_inv s \<Longrightarrow> listener_inv (stop_step j s)"
proof (cases "stoppers s ! j = S_CloseListener")
  case True
  assume "listener_inv s"
  then have "listener_inv (listener_Close s)" by (rule listener_inv_Close)
  then have "listener_inv (set_stopper j S_Wait (listener_Close s))"
    by (simp add: listener_inv_def set_stopper_def)
  then show ?thesis using True by (simp add: stop_step_def)
next
  case False
  assume "listener_inv s"
  then show ?thesis using frame_stop_step [OF False] listener_inv_frame by blast
qed

lemma listener_inv_step: "listener_inv s \<Longrightarrow> listener_inv (step e s)"
proof (cases e)
  case StopCalled
  assume "listener_inv s"
  then show ?thesis using StopCalled by (simp add: step_def listener_inv_def)
qed (auto simp: step_def listener_inv_stop_step
       intro: listener_inv_frame [OF frame_tick] listener_inv_frame [OF frame_accept_returns]
         listener_inv_frame [OF frame_accept_select] listener_inv_frame [OF frame_handler_step]
         listener_inv_frame [OF frame_dial] listener_inv_frame [of s "set_handler _ _ s"])

lemma lives_0: "lives s = 0 \<Longrightarrow> list_all (\<lambda>h. hpc h = H_Exited) (handlers s)"
  by (auto simp: lives_def live_def list_all_iff split: if_splits)

lemma all_exited_wait:
  "counted s \<Longrightarrow> accept_pc s \<noteq> A_Idle \<Longrightarrow> wg (px s) = 0 \<Longrightarrow> all_exited s"
  by (cases "accept_pc s") (auto simp: counted_def all_exited_def lives_0)

lemma handler_step_exited: "hpc h = H_Exited \<Longrightarrow> handler_step i h s = s"
  by (simp add: handler_step_def)

lemma dial_returns_exited: "hpc h = H_Exited \<Longrightarrow> dial_returns i h ok s = s"
  by (simp add: dial_returns_def)

lemma exited_nth:
  "list_all (\<lambda>h. hpc h = H_Exited) hs \<Longrightarrow> i < length hs \<Longrightarrow> hpc (hs ! i) = H_Exited"
  by (simp add: list_all_length)

lemma all_exited_step:
  assumes "all_exited s" shows "all_exited (step e s)"
proof (cases e)
  case (HandlerStep i)
  then show ?thesis using assms exited_nth [of "handlers s" i]
    by (auto simp: step_def all_exited_def handler_step_exited)
next
  case (DialReturns i ok)
  then show ?thesis using assms exited_nth [of "handlers s" i]
    by (auto simp: step_def all_exited_def dial_returns_exited)
next
  case (StopStep j)
  then show ?thesis using assms
    by (cases "stoppers s ! j")
       (auto simp: step_def all_exited_def stop_step_def set_stopper_def listener_Close_def
          split: option.splits)
qed (use assms in \<open>auto simp: step_def all_exited_def tick_def accept_returns_def accept_select_def
       set_handler_def exited_nth intro!: list_all_update\<close>)

lemma frame2_refl [simp]: "frame2 s s"
  by (simp add: frame2_def)

lemma frame2_wg_Done [simp]: "frame2 s (wg_Done s') = frame2 s s'"
  by (simp add: frame2_def wg_Done_def)

lemma frame2_wg_Add [simp]: "frame2 s (wg_Add s') = frame2 s s'"
  by (simp add: frame2_def wg_Add_def)

lemma frame2_set_handler [simp]: "frame2 s (set_handler i h s') = frame2 s s'"
  by (simp add: frame2_def set_handler_def)

lemma frame2_handler_step: "frame2 s (handler_step i h s)"
  by (cases "hpc h") (simp_all add: handler_step_def, simp_all add: frame2_def)

lemma frame2_dial: "frame2 s (dial_returns i h ok s)"
  by (simp add: dial_returns_def)

lemma frame2_accept_returns: "frame2 s (accept_returns ok s)"
  by (simp add: accept_returns_def frame2_def)

lemma frame2_accept_select: "frame2 s (accept_select s)"
  by (cases "accept_pc s") (simp_all add: accept_select_def, simp_all add: frame2_def)

lemma frame2_tick: "frame2 s (tick n s)"
  by (simp add: tick_def frame2_def)

lemma stops_frame: "frame2 s s' \<Longrightarrow> stops s \<Longrightarrow> stops s'"
  by (simp add: frame2_def stops_def listener_open_def)

lemma listener_open_Close: "\<not> listener_open (px (listener_Close s))"
  by (auto simp: listener_open_def listener_Close_def split: option.splits)

lemma done_closed_Close [simp]: "done_closed (px (listener_Close s)) = done_closed (px s)"
  by (auto simp: listener_Close_def split: option.splits)

lemma stoppers_Close [simp]: "stoppers (listener_Close s) = stoppers s"
  by (auto simp: listener_Close_def split: option.splits)

lemma list_all_mono: "list_all P xs \<Longrightarrow> (\<And>x. P x \<Longrightarrow> Q x) \<Longrightarrow> list_all Q xs"
  by (auto simp: list_all_iff)

lemma stops_stop_step: "stops s \<Longrightarrow> j < length (stoppers s) \<Longrightarrow> stops (stop_step j s)"
proof (cases "stoppers s ! j")
  case S_CloseDone
  assume "stops s"
  then show ?thesis using S_CloseDone
    by (auto simp: stops_def stop_step_def set_stopper_def listener_open_def
          intro!: list_all_update elim: list_all_mono)
next
  case S_CloseListener
  assume "stops s" and j: "j < length (stoppers s)"
  then have "done_closed (px s)"
    using S_CloseListener list_all_nth [OF _ j] by (fastforce simp: stops_def)
  then show ?thesis using S_CloseListener listener_open_Close [of s]
    by (auto simp: stops_def stop_step_def set_stopper_def list_all_iff
          dest!: set_update_subsetI [OF subset_refl, THEN subsetD])
next
  case S_Wait
  assume "stops s" and j: "j < length (stoppers s)"
  then show ?thesis using S_Wait list_all_nth [OF _ j]
    by (auto simp: stops_def stop_step_def set_stopper_def intro!: list_all_update)
next
  case S_Returned
  assume "stops s"
  then show ?thesis using S_Returned by (simp add: stop_step_def)
qed

lemma stops_step: "stops s \<Longrightarrow> stops (step e s)"
proof (cases e)
  case StopCalled
  assume "stops s"
  then show ?thesis using StopCalled by (simp add: step_def stops_def listener_open_def)
qed (auto simp: step_def stops_stop_step
       intro: stops_frame [OF frame2_tick] stops_frame [OF frame2_accept_returns]
         stops_frame [OF frame2_accept_select] stops_frame [OF frame2_handler_step]
         stops_frame [OF frame2_dial] stops_frame [of s "set_handler _ _ s"])

lemma started_step: "started s \<Longrightarrow> started (step e s)"
proof (cases e)
  case (HandlerStep i)
  assume "started s"
  then show ?thesis using HandlerStep
    by (cases "hpc (handlers s ! i)")
       (auto simp: started_def step_def handler_step_def set_handler_def wg_Done_def)
next
  case (StopStep j)
  assume "started s"
  then show ?thesis using StopStep
    by (cases "stoppers s ! j")
       (auto simp: started_def step_def stop_step_def set_stopper_def listener_Close_def
          split: option.splits)
next
  case AcceptSelect
  assume "started s"
  then show ?thesis using AcceptSelect
    by (cases "accept_pc s")
       (auto simp: started_def step_def accept_select_def wg_Done_def wg_Add_def)
qed (auto simp: started_def step_def tick_def accept_returns_def dial_returns_def set_handler_def)

lemma returned_new:
  assumes "S_Returned \<in> set (stoppers (step e s))"
  shows "S_Returned \<in> set (stoppers s) \<or> wg (px s) = 0"
proof (cases e)
  case (HandlerStep i)
  have "frame2 s (handler_step i (handlers s ! i) s)" by (rule frame2_handler_step)
  then show ?thesis using assms HandlerStep by (auto simp: step_def frame2_def split: if_splits)
next
  case (DialReturns i ok)
  have "frame2 s (dial_returns i (handlers s ! i) ok s)" by (rule frame2_dial)
  then show ?thesis using assms DialReturns by (auto simp: step_def frame2_def split: if_splits)
next
  case AcceptSelect
  have "frame2 s (accept_select s)" by (rule frame2_accept_select)
  then show ?thesis using assms AcceptSelect by (auto simp: step_def frame2_def split: if_splits)
next
  case (StopStep j)
  then show ?thesis using assms
    by (cases "stoppers s ! j")
       (auto simp: step_def stop_step_def set_stopper_def
          split: if_splits dest!: set_update_subset_insert [THEN subsetD])
qed (use assms in \<open>auto simp: step_def tick_def accept_returns_def set_handler_def split: if_splits\<close>)

lemma returned_step:
  assumes "returned s" "counted s" "started s"
  shows "returned (step e s)"
  unfolding returned_def
proof
  assume "S_Returned \<in> set (stoppers (step e s))"
  then have "S_Returned \<in> set (stoppers s) \<or> wg (px s) = 0" by (rule returned_new)
  then have "all_exited s"
    using assms all_exited_wait [of s] by (auto simp: returned_def started_def)
  then show "all_exited (step e s)" by (rule all_exited_step)
qed

subsection \<open>Time\<close>

lemma htimed_tick:
  "htimed now h \<Longrightarrow> handler_waits (now + n) h \<Longrightarrow> htimed (now + n) h"
  by (cases "hpc h") (auto simp: htimed_def handler_waits_def)

lemma timed_tick: "timed s \<Longrightarrow> timed (tick n s)"
proof -
  assume t: "timed s"
  show ?thesis
  proof (cases "accept_waits s \<and> list_all (handler_waits (clock s + n)) (handlers s)
         \<and> list_all (stopper_waits s) (stoppers s)")
    case True
    then have "list_all (htimed (clock s + n)) (handlers s)"
      using t by (auto simp: timed_def list_all_iff htimed_tick)
    moreover have "accept_timed (clock s + n) (accept_pc s)"
      using True by (cases "accept_pc s") (auto simp: accept_waits_def)
    ultimately show ?thesis using True by (simp add: tick_def timed_def)
  next
    case False
    then show ?thesis using t by (auto simp: tick_def)
  qed
qed

lemma clock_wg_Done [simp]: "clock (wg_Done s) = clock s"
  by (simp add: wg_Done_def)

lemma accept_pc_wg_Done [simp]: "accept_pc (wg_Done s) = accept_pc s"
  by (simp add: wg_Done_def)

lemma timed_handler_step:
  assumes "timed s" "i < length (handlers s)" "hsync (handlers s ! i)"
  shows "timed (handler_step i (handlers s ! i) s)"
proof -
  have h: "htimed (clock s) (handlers s ! i)"
    using assms by (simp add: timed_def list_all_length)
  show ?thesis
    using assms(1,3) h
    by (cases "hpc (handlers s ! i)"; cases "remote (handlers s ! i)")
       (auto simp: handler_step_def timed_def set_handler_def htimed_def closed_by_def hsync_def
          intro!: list_all_update)
qed

lemma timed_dial:
  assumes "timed s" "i < length (handlers s)"
  shows "timed (dial_returns i (handlers s ! i) ok s)"
proof -
  have h: "htimed (clock s) (handlers s ! i)"
    using assms by (simp add: timed_def list_all_length)
  show ?thesis
    using assms(1) h
    by (auto simp: dial_returns_def timed_def set_handler_def htimed_def
          intro!: list_all_update)
qed

lemma remote_read: "(remote (read_returns d r now h) = None) = (remote h = None)"
  by (cases d; cases "rpc_of d h")
     (auto simp: read_returns_def rpc_of_def src_of_def set_rpc_def set_end_def map_src_def
        split: read_result.splits option.splits)

lemma remote_write: "(remote (write_returns d w now h) = None) = (remote h = None)"
  by (cases d; cases "rpc_of d h")
     (auto simp: write_returns_def rpc_of_def dst_of_def set_rpc_def set_end_def map_dst_def
        Let_def split: option.splits prod.splits)

lemma remote_relay: "(remote (relay_step d h) = None) = (remote h = None)"
  by (cases d; cases "rpc_of d h")
     (auto simp: relay_step_def rpc_of_def set_rpc_def map_dst_def)

lemma times_read [simp]:
  "deadline (local (read_returns d r now h)) = deadline (local h)"
  "t_accept (read_returns d r now h) = t_accept h"
  "dial_start (read_returns d r now h) = dial_start h"
  "t_closed (read_returns d r now h) = t_closed h"
  by (cases d; cases "rpc_of d h";
      auto simp: read_returns_def rpc_of_def src_of_def set_rpc_def set_end_def map_src_def
        split: read_result.splits option.splits)+

lemma times_write [simp]:
  "deadline (local (write_returns d w now h)) = deadline (local h)"
  "t_accept (write_returns d w now h) = t_accept h"
  "dial_start (write_returns d w now h) = dial_start h"
  "t_closed (write_returns d w now h) = t_closed h"
  by (cases d; cases "rpc_of d h";
      auto simp: write_returns_def rpc_of_def dst_of_def set_rpc_def set_end_def map_dst_def
        Let_def split: option.splits prod.splits)+

lemma times_relay [simp]:
  "deadline (local (relay_step d h)) = deadline (local h)"
  "t_accept (relay_step d h) = t_accept h"
  "dial_start (relay_step d h) = dial_start h"
  "t_closed (relay_step d h) = t_closed h"
  by (cases d; cases "rpc_of d h";
      auto simp: relay_step_def rpc_of_def set_rpc_def map_dst_def)+

lemma htimed_read: "htimed t h \<Longrightarrow> htimed t (read_returns d r now h)"
  by (simp add: htimed_def remote_read)

lemma htimed_write: "htimed t h \<Longrightarrow> htimed t (write_returns d w now h)"
  by (simp add: htimed_def remote_write)

lemma htimed_relay: "htimed t h \<Longrightarrow> htimed t (relay_step d h)"
  by (simp add: htimed_def remote_relay)

lemma timed_set_handler:
  "timed s \<Longrightarrow> htimed (clock s) h \<Longrightarrow> timed (set_handler i h s)"
  by (simp add: timed_def set_handler_def list_all_update)

lemma htimed_nth: "timed s \<Longrightarrow> i < length (handlers s) \<Longrightarrow> htimed (clock s) (handlers s ! i)"
  by (simp add: timed_def list_all_length)

lemma timed_accept_select: "timed s \<Longrightarrow> timed (accept_select s)"
  by (cases "accept_pc s")
     (auto simp: accept_select_def timed_def wg_Done_def wg_Add_def htimed_def new_handler_def
        closed_by_def)

lemma timed_stop_step: "timed s \<Longrightarrow> timed (stop_step j s)"
  by (cases "stoppers s ! j")
     (auto simp: stop_step_def timed_def set_stopper_def listener_Close_def split: option.splits)

lemma timed_step: "wf s \<Longrightarrow> timed s \<Longrightarrow> timed (step e s)"
proof (cases e)
  case (AcceptReturns ok)
  assume "timed s"
  then show ?thesis using AcceptReturns by (auto simp: step_def accept_returns_def timed_def)
next
  case StopCalled
  assume "timed s"
  then show ?thesis using StopCalled by (auto simp: step_def timed_def)
qed (auto simp: step_def wf_def list_all_nth timed_tick timed_handler_step timed_dial timed_accept_select
       timed_stop_step htimed_nth htimed_read htimed_write htimed_relay intro!: timed_set_handler)

subsection \<open>The connections turned away\<close>

lemma rejected_wg_Done [simp]: "rejected (wg_Done s) = rejected s"
  by (simp add: wg_Done_def)

lemma rejected_handler_step [simp]: "rejected (handler_step i h s) = rejected s"
  by (cases "hpc h") (simp_all add: handler_step_def set_handler_def)

lemma rejected_stop_step [simp]: "rejected (stop_step j s) = rejected s"
  by (cases "stoppers s ! j")
     (auto simp: stop_step_def set_stopper_def listener_Close_def split: option.splits)

lemma rejects_accept_select: "rejects s \<Longrightarrow> rejects (accept_select s)"
  by (cases "accept_pc s")
     (auto simp: accept_select_def rejects_def wg_Done_def wg_Add_def untouched_def new_conn_def)

lemma rejects_step: "rejects s \<Longrightarrow> rejects (step e s)"
proof (cases e)
  case AcceptSelect
  assume "rejects s"
  then show ?thesis using AcceptSelect by (simp add: step_def rejects_accept_select)
qed (auto simp: step_def rejects_def tick_def accept_returns_def dial_returns_def set_handler_def)

subsection \<open>The invariant of every run\<close>

lemma Inv_step: "Inv s \<Longrightarrow> Inv (step e s)"
  by (simp add: Inv_def wf_step counted_step listener_inv_step stops_step returned_step
        started_step timed_step rejects_step)

lemma Inv_run: "Inv s \<Longrightarrow> Inv (run es s)"
  by (induction es arbitrary: s) (simp_all add: Inv_step)

lemma boot_cases:
  "boot k lp rh rp t = (e, s) \<Longrightarrow>
     (case net_Listen k lp of
        Inl err \<Rightarrow> e = Some (BindError lp err)
      | Inr (q, k') \<Rightarrow> e = None \<and> os s = k' \<and> accept_pc s = A_Accept
          \<and> px s = (New lp rh rp)\<lparr>listener := Some \<lparr>lport = q, lopen = True\<rparr>, wg := 1\<rparr>)
     \<and> handlers s = [] \<and> rejected s = [] \<and> stoppers s = [] \<and> \<not> panicked s \<and> released s = 0
     \<and> clock s = t"
  by (auto simp: boot_def Start_def New_def split: sum.splits prod.splits)

lemma Inv_boot:
  assumes "boot k lp rh rp t = (None, s)"
  shows "Inv s"
proof -
  obtain q k' where l: "net_Listen k lp = Inr (q, k')"
    using boot_cases [OF assms] by (cases "net_Listen k lp") auto
  then have s: "os s = k'" "accept_pc s = A_Accept" "handlers s = []" "stoppers s = []"
    "released s = 0" "px s = (New lp rh rp)\<lparr>listener := Some \<lparr>lport = q, lopen = True\<rparr>, wg := 1\<rparr>"
    using boot_cases [OF assms] by simp_all
  have "listener_inv s"
    using net_Listen_bound [OF l]
    by (auto simp: listener_inv_def listener_ok_def port_ok_def s New_def)
  then show ?thesis
    using boot_cases [OF assms]
    by (simp add: Inv_def wf_def counted_def stops_def returned_def started_def timed_def s
        slots_def lives_def New_def rejects_def)
qed

subsection \<open>The booted proxy\<close>

lemma booted_eq:
  "booted =
     \<lparr>os = \<lparr>listening = {8000}, privileged = False, ephemeral = [40000, 40001]\<rparr>,
      px = \<lparr>LocalPort = 8000, RemoteAddr = ''10.0.0.5'' @ '':'' @ fmt_d 3000,
            listener = Some \<lparr>lport = 8000, lopen = True\<rparr>, done_closed = False, wg = 1,
            connSem = 0\<rparr>,
      accept_pc = A_Accept, handlers = [], rejected = [], stoppers = [], panicked = False,
      released = 0, clock = 0\<rparr>"
  by (simp add: booted_def boot_def Start_def New_def net_Listen_small tcp_bind_def host0_def)

lemma boot_booted: "boot host0 8000 ''10.0.0.5'' 3000 0 = (None, booted)"
  by (simp add: booted_def boot_def Start_def New_def net_Listen_small tcp_bind_def host0_def)

lemma Inv_reach: "boot k lp rh rp t = (None, s0) \<Longrightarrow> Inv (run es s0)"
  by (simp add: Inv_boot Inv_run)

subsection \<open>The concrete runs, evaluated\<close>

lemmas ops = step_def accept_returns_def accept_select_def handler_step_def dial_returns_def
  read_returns_def write_returns_def relay_step_def stop_step_def tick_def set_handler_def
  set_stopper_def listener_Close_def wg_Done_def wg_Add_def new_handler_def new_conn_def
  conn_Read_def conn_Write_def expired_def rpc_of_def set_rpc_def set_end_def src_of_def
  dst_of_def map_src_def map_dst_def accept_waits_def handler_waits_def relay_waits_def
  conn_waits_def stopper_waits_def listener_open_def
  MaxConnectionsPerProxy_def ConnectionTimeout_def DialTimeout_def second_def





section \<open>The claims\<close>

text \<open>
  C8. After an error from \<open>Accept\<close> the accept loop stands at the \<open>select\<close> on \<open>done\<close>. It
  returns exactly when \<open>done\<close> is closed at that point, giving its count of the wait
  group back; otherwise it goes back to \<open>Accept\<close> and nothing else has changed, so an
  accept error alone does not end the proxy.
\<close>

theorem accept_error_policy:
  assumes "boot k lp rh rp t = (None, s0)" and "s = run es s0" and "\<not> panicked s"
  shows "(accept_pc s = A_Accept \<longrightarrow> step (AcceptReturns False) s = s\<lparr>accept_pc := A_GotErr\<rparr>)
    \<and> (accept_pc s = A_GotErr \<longrightarrow>
         (accept_pc (step AcceptSelect s) = A_Exited) = done_closed (px s)
         \<and> (\<not> done_closed (px s) \<longrightarrow> step AcceptSelect s = s\<lparr>accept_pc := A_Accept\<rparr>)
         \<and> (done_closed (px s) \<longrightarrow> 0 < wg (px s)
              \<and> step AcceptSelect s
                  = s\<lparr>accept_pc := A_Exited, px := (px s)\<lparr>wg := wg (px s) - 1\<rparr>\<rparr>))"
proof -
  have "Inv s" using assms(1,2) by (simp add: Inv_reach)
  then have "accept_pc s = A_GotErr \<Longrightarrow> 0 < wg (px s)"
    by (simp add: Inv_def counted_def)
  then show ?thesis
    using assms(3) by (auto simp: step_def accept_returns_def accept_select_def wg_Done_def)
qed

theorem accept_error_policy_witness:
  "boot host0 8000 ''10.0.0.5'' 3000 0 = (None, booted)
   \<and> \<not> panicked (run [AcceptReturns False] booted)
   \<and> accept_pc (run [AcceptReturns False] booted) = A_GotErr
   \<and> \<not> done_closed (px (run [AcceptReturns False] booted))
   \<and> accept_pc (step AcceptSelect (run [AcceptReturns False] booted)) = A_Accept
   \<and> accept_pc (run [StopCalled, StopStep 0, AcceptReturns False] booted) = A_GotErr
   \<and> done_closed (px (run [StopCalled, StopStep 0, AcceptReturns False] booted))
   \<and> accept_pc (step AcceptSelect (run [StopCalled, StopStep 0, AcceptReturns False] booted))
       = A_Exited"
  using accept_error_policy [OF boot_booted, of "run [AcceptReturns False] booted" "[AcceptReturns False]"]
    accept_error_policy [OF boot_booted,
      of "run [StopCalled, StopStep 0, AcceptReturns False] booted"
         "[StopCalled, StopStep 0, AcceptReturns False]"]
  by (simp add: boot_booted booted_eq step_def accept_returns_def stop_step_def set_stopper_def)

lemma stops_run: "stops s \<Longrightarrow> stops (run es s)"
  by (induction es arbitrary: s) (simp_all add: stops_step)

text \<open>
  C9. Take any proxy on which no call of \<open>Stop\<close> is under way, whether \<open>Start\<close> has
  succeeded on it, has failed or was never called, and any run from there. Once a call
  of \<open>Stop\<close> has run \<open>close(p.done)\<close>, every other call of \<open>Stop\<close> that reaches that statement
  panics: the process is dead and nothing else of the state has changed, so the second
  call is not a no-op and does not return.
\<close>

theorem second_Stop_panics:
  assumes "stoppers s0 = []" and "s = run es s0" and "\<not> panicked s"
    and "i < length (stoppers s)" and "stoppers s ! i \<noteq> S_CloseDone"
  shows "step (StopStep (length (stoppers s))) (step StopCalled s)
           = s\<lparr>stoppers := stoppers s @ [S_CloseDone], panicked := True\<rparr>
    \<and> (\<forall>j < length (stoppers s). stoppers s ! j = S_CloseDone \<longrightarrow>
           step (StopStep j) s = s\<lparr>panicked := True\<rparr>)"
proof -
  have "stops s0" using assms(1) by (simp add: stops_def)
  then have "stops s" using assms(2) by (simp add: stops_run)
  then have "done_closed (px s)"
    using assms(4,5) list_all_nth [of "\<lambda>c. c = S_CloseDone \<or> done_closed (px s)" "stoppers s" i]
    by (auto simp: stops_def)
  then show ?thesis
    using assms(3) by (simp add: step_def stop_step_def nth_append)
qed

lemma stopped_once_eq:
  "stopped_once =
     \<lparr>os = \<lparr>listening = {}, privileged = False, ephemeral = [40000, 40001]\<rparr>,
      px = \<lparr>LocalPort = 8000, RemoteAddr = ''10.0.0.5'' @ '':'' @ fmt_d 3000,
            listener = Some \<lparr>lport = 8000, lopen = False\<rparr>, done_closed = True, wg = 0,
            connSem = 0\<rparr>,
      accept_pc = A_Exited, handlers = [], rejected = [], stoppers = [S_Returned],
      panicked = False, released = 1, clock = 0\<rparr>"
  by (simp add: stopped_once_def booted_eq step_def accept_returns_def accept_select_def
        stop_step_def set_stopper_def listener_Close_def wg_Done_def)

lemma unbound_eq:
  "unbound =
     \<lparr>os = host0, px = New 70000 ''10.0.0.5'' 3000, accept_pc = A_Idle, handlers = [],
      rejected = [], stoppers = [], panicked = False, released = 0, clock = 0\<rparr>"
  using net_Listen_refused [of 70000 host0]
  by (simp add: unbound_def boot_def Start_def New_def)

lemma unbound_stopped_eq:
  "unbound_stopped = unbound\<lparr>px := (px unbound)\<lparr>done_closed := True\<rparr>, stoppers := [S_Returned]\<rparr>"
  by (simp add: unbound_stopped_def unbound_eq New_def step_def stop_step_def set_stopper_def
        listener_Close_def)

theorem second_Stop_panics_witness:
  "stoppers booted = [] \<and> \<not> panicked stopped_once \<and> stoppers stopped_once = [S_Returned]
   \<and> panicked (run [StopCalled, StopStep 1] stopped_once)
   \<and> stoppers (run [StopCalled, StopStep 1] stopped_once) = [S_Returned, S_CloseDone]
   \<and> fst (boot host0 70000 ''10.0.0.5'' 3000 0) = Some (BindError 70000 InvalidPort)
   \<and> stoppers unbound = [] \<and> listener (px unbound) = None
   \<and> \<not> panicked unbound_stopped \<and> stoppers unbound_stopped = [S_Returned]
   \<and> panicked (run [StopCalled, StopStep 1] unbound_stopped)"
proof -
  have b: "fst (boot host0 70000 ''10.0.0.5'' 3000 0) = Some (BindError 70000 InvalidPort)"
    using net_Listen_refused [of 70000 host0] by (simp add: boot_def Start_def New_def)
  have u: "stoppers unbound = []" "listener (px unbound) = None"
    "\<not> panicked unbound_stopped" "stoppers unbound_stopped = [S_Returned]"
    by (simp_all add: unbound_stopped_eq) (simp_all add: unbound_eq New_def)
  have s: "stoppers booted = []" by (simp add: booted_eq)
  show ?thesis
    using second_Stop_panics [OF s stopped_once_def, of 0]
      second_Stop_panics [OF u(1) unbound_stopped_def, of 0] b u
    by (simp add: stopped_once_eq booted_eq)
qed

text \<open>
  C10, as the code has it. \<open>New\<close> stores any integer as \<open>LocalPort\<close>, and \<open>Start\<close> fails
  exactly when \<open>net.Listen\<close> does, with the error of \<open>net.Listen\<close> wrapped: neither checks
  the range 1..65535. For port 0 \<open>Start\<close> succeeds whenever a port of the ephemeral
  range is free, and the listener holds the first such port. A port between \<open>- 2^32\<close>
  and 0 or between 65535 and \<open>2^32\<close> is refused by \<open>net.Listen\<close> as invalid, and \<open>Start\<close>
  leaves everything as it was. Beyond that the port can wrap round in \<open>net.Listen\<close>:
  4294975296 is listened on as 8000.
\<close>

theorem no_port_validation:
  "LocalPort (New lp rh rp) = lp
   \<and> fst (Start k (New lp rh rp) A_Idle)
       = (case net_Listen k lp of Inl err \<Rightarrow> Some (BindError lp err) | Inr l \<Rightarrow> None)
   \<and> (find (\<lambda>q. q \<notin> listening k) (ephemeral k) = Some q \<longrightarrow>
        Start k (New 0 rh rp) A_Idle
          = (None, k\<lparr>listening := insert q (listening k)\<rparr>,
             (New 0 rh rp)\<lparr>listener := Some \<lparr>lport = q, lopen = True\<rparr>, wg := 1\<rparr>,
             A_Accept))
   \<and> ((- 4294967296 < lp \<and> lp < 0) \<or> (65535 < lp \<and> lp < 4294967296) \<longrightarrow>
        net_Listen k lp = Inl InvalidPort
        \<and> Start k (New lp rh rp) A_Idle = (Some (BindError lp InvalidPort), k, New lp rh rp, A_Idle))
   \<and> net_Listen k 4294975296 = net_Listen k 8000"
proof -
  have a: "fst (Start k (New lp rh rp) A_Idle)
       = (case net_Listen k lp of Inl err \<Rightarrow> Some (BindError lp err) | Inr l \<Rightarrow> None)"
    by (auto simp: Start_def New_def split: sum.splits)
  have b: "find (\<lambda>q. q \<notin> listening k) (ephemeral k) = Some q \<longrightarrow>
        Start k (New 0 rh rp) A_Idle
          = (None, k\<lparr>listening := insert q (listening k)\<rparr>,
             (New 0 rh rp)\<lparr>listener := Some \<lparr>lport = q, lopen = True\<rparr>, wg := 1\<rparr>,
             A_Accept)"
    by (simp add: Start_def New_def net_Listen_small tcp_bind_def)
  have c: "(- 4294967296 < lp \<and> lp < 0) \<or> (65535 < lp \<and> lp < 4294967296) \<longrightarrow>
        net_Listen k lp = Inl InvalidPort
        \<and> Start k (New lp rh rp) A_Idle = (Some (BindError lp InvalidPort), k, New lp rh rp, A_Idle)"
    using net_Listen_refused [of lp k] by (auto simp: Start_def New_def)
  have d: "net_Listen k 4294975296 = net_Listen k 8000"
    by (simp add: net_Listen_wraps net_Listen_small)
  have e: "LocalPort (New lp rh rp) = lp" by (simp add: New_def)
  from e a b c d show ?thesis by (intro conjI)
qed

theorem no_port_validation_witness:
  "find (\<lambda>q. q \<notin> listening host0) (ephemeral host0) = Some 40000
   \<and> fst (Start host0 (New 0 ''10.0.0.5'' 3000) A_Idle) = None
   \<and> listener (fst (snd (snd (Start host0 (New 0 ''10.0.0.5'' 3000) A_Idle))))
       = Some \<lparr>lport = 40000, lopen = True\<rparr>
   \<and> find (\<lambda>q. q \<notin> listening (host0\<lparr>listening := {40000}\<rparr>))
         (ephemeral (host0\<lparr>listening := {40000}\<rparr>)) = Some 40001
   \<and> listener (fst (snd (snd (Start (host0\<lparr>listening := {40000}\<rparr>) (New 0 ''10.0.0.5'' 3000) A_Idle))))
       = Some \<lparr>lport = 40001, lopen = True\<rparr>
   \<and> (65535::int) < 70000 \<and> (70000::int) < 4294967296
   \<and> fst (Start host0 (New 70000 ''10.0.0.5'' 3000) A_Idle) = Some (BindError 70000 InvalidPort)
   \<and> fst (Start host0 (New (- 1) ''10.0.0.5'' 3000) A_Idle) = Some (BindError (- 1) InvalidPort)"
  using no_port_validation [of 0 "''10.0.0.5''" 3000 host0 40000]
    no_port_validation [of 0 "''10.0.0.5''" 3000 "host0\<lparr>listening := {40000}\<rparr>" 40001]
    no_port_validation [of 70000 "''10.0.0.5''" 3000 host0]
    no_port_validation [of "- 1" "''10.0.0.5''" 3000 host0]
  by (simp add: host0_def)

text \<open>
  C10, as it is worded, fails: \<open>LocalPort\<close> 4294975296 is outside 1..65535 and \<open>Start\<close>
  does not fail on it, it listens on port 8000.
\<close>

theorem port_above_range_is_bound:
  "Start host0 (New 4294975296 ''10.0.0.5'' 3000) A_Idle
     = (None, host0\<lparr>listening := {8000}\<rparr>,
        (New 4294975296 ''10.0.0.5'' 3000)\<lparr>listener := Some \<lparr>lport = 8000, lopen = True\<rparr>, wg := 1\<rparr>,
        A_Accept)"
  by (simp add: Start_def New_def net_Listen_wraps tcp_bind_def host0_def)

text \<open>
  C6. Whenever \<open>net.Listen\<close> fails, whatever the reason, \<open>Start\<close> returns the error wrapped
  and leaves the socket layer, the proxy (its listener is still nil, its wait group
  untouched) and the accept loop (never launched) as they were; \<open>Add\<close> then returns that
  error and the manager it was given. When \<open>net.Listen\<close> succeeds, \<open>Add\<close> appends one
  proxy, the started one, after the members it had.
\<close>

theorem bind_failure_atomic:
  "(net_Listen k (LocalPort p) = Inl err \<longrightarrow>
      Start k p a = (Some (BindError (LocalPort p) err), k, p, a))
   \<and> (net_Listen k lp = Inl err \<longrightarrow> Add k m lp rh rp = (Some (BindError lp err), k, m))
   \<and> (net_Listen k lp = Inr (q, k') \<longrightarrow>
        Add k m lp rh rp
          = (None, k',
             m\<lparr>proxies := proxies m
                @ [((New lp rh rp)\<lparr>listener := Some \<lparr>lport = q, lopen = True\<rparr>, wg := 1\<rparr>,
                    A_Accept)]\<rparr>))"
  by (auto simp: Start_def Add_def New_def)

text \<open>
  A port that is listening already, a privileged port without privilege, and port 0
  asked for twice.
\<close>

theorem bind_failure_atomic_witness:
  "net_Listen host0 8000 = Inr (8000, host0\<lparr>listening := {8000}\<rparr>)
   \<and> fst (Add host0 NewManager 8000 ''10.0.0.5'' 3000) = None
   \<and> length (proxies (snd one_member)) = 1
   \<and> net_Listen (fst one_member) 8000 = Inl AddrInUse
   \<and> Add (fst one_member) (snd one_member) 8000 ''10.0.0.5'' 3000
       = (Some (BindError 8000 AddrInUse), fst one_member, snd one_member)
   \<and> net_Listen host0 80 = Inl PermissionDenied
   \<and> Add host0 NewManager 80 ''10.0.0.5'' 3000 = (Some (BindError 80 PermissionDenied), host0, NewManager)
   \<and> net_Listen host0 0 = Inr (40000, host0\<lparr>listening := {40000}\<rparr>)
   \<and> net_Listen (host0\<lparr>listening := {40000}\<rparr>) 0
       = Inr (40001, host0\<lparr>listening := {40001, 40000}\<rparr>)"
proof -
  have l: "net_Listen host0 8000 = Inr (8000, host0\<lparr>listening := {8000}\<rparr>)"
    "net_Listen host0 80 = Inl PermissionDenied"
    "net_Listen host0 0 = Inr (40000, host0\<lparr>listening := {40000}\<rparr>)"
    "net_Listen (host0\<lparr>listening := {40000}\<rparr>) 0
       = Inr (40001, host0\<lparr>listening := {40001, 40000}\<rparr>)"
    "net_Listen (host0\<lparr>listening := {8000}\<rparr>) 8000 = Inl AddrInUse"
    by (simp_all add: net_Listen_small tcp_bind_def host0_def)
  have o: "one_member
      = (host0\<lparr>listening := {8000}\<rparr>,
         NewManager\<lparr>proxies :=
           [((New 8000 ''10.0.0.5'' 3000)\<lparr>listener := Some \<lparr>lport = 8000, lopen = True\<rparr>, wg := 1\<rparr>,
             A_Accept)]\<rparr>)"
    using bind_failure_atomic [of host0 "New 8000 ''10.0.0.5'' 3000" _ _ 8000 NewManager
        "''10.0.0.5''" 3000 8000 "host0\<lparr>listening := {8000}\<rparr>"] l(1)
    by (simp add: one_member_def NewManager_def)
  show ?thesis
    using bind_failure_atomic [of host0 "New 8000 ''10.0.0.5'' 3000" _ _ 8000 NewManager
        "''10.0.0.5''" 3000 8000 "host0\<lparr>listening := {8000}\<rparr>"]
      bind_failure_atomic [of "fst one_member" "New 8000 ''10.0.0.5'' 3000" AddrInUse _ 8000
        "snd one_member" "''10.0.0.5''" 3000]
      bind_failure_atomic [of host0 "New 80 ''10.0.0.5'' 3000" PermissionDenied _ 80 NewManager
        "''10.0.0.5''" 3000] l
    by (simp add: o)
qed







lemma relayed_prefix: "relayed pc e inp out \<Longrightarrow> prefix out inp"
  by (cases pc) (auto simp: relayed_def split: if_splits)

lemma relayed_eof: "relayed pc (Some CopyEOF) inp out \<Longrightarrow> inp = out"
  by (cases pc) (auto simp: relayed_def)

lemma handler_nth:
  assumes "boot k lp rh rp t = (None, s0)" and "s = run es s0" and "i < length (handlers s)"
  shows "hsync (handlers s ! i)" and "hconn (handlers s ! i)" and "hbytes (handlers s ! i)"
    and "htimed (clock s) (handlers s ! i)"
  using Inv_reach [OF assms(1), of es] assms(2,3)
  by (simp_all add: Inv_def wf_def timed_def list_all_length)

text \<open>
  On every run, for every handler that has dialled its backend: the bytes written to the
  backend are, in order, the first bytes read from the client, and the bytes written to
  the client are the first bytes read from the backend. A relay that ended at the end
  of its stream has written all it read.
\<close>

lemma relay_keeps_bytes:
  assumes "boot k lp rh rp t = (None, s0)" and "s = run es s0"
    and "i < length (handlers s)" and "h = handlers s ! i" and "remote h = Some r"
  shows "prefix (written r) (rcvd (local h)) \<and> prefix (written (local h)) (rcvd r)
    \<and> (up_end h = Some CopyEOF \<longrightarrow> written r = rcvd (local h))
    \<and> (down_end h = Some CopyEOF \<longrightarrow> written (local h) = rcvd r)"
proof -
  have "hbytes h" using handler_nth(3) [OF assms(1-3)] assms(4) by simp
  then have u: "relayed (up h) (up_end h) (rcvd (local h)) (written r)"
    and d: "relayed (down h) (down_end h) (rcvd r) (written (local h))"
    using assms(5) by (simp_all add: hbytes_def remote_written_def remote_rcvd_def)
  have ue: "rcvd (local h) = written r" if "up_end h = Some CopyEOF"
    using u that relayed_eof [of "up h" "rcvd (local h)" "written r"] by simp
  have de: "rcvd r = written (local h)" if "down_end h = Some CopyEOF"
    using d that relayed_eof [of "down h" "rcvd r" "written (local h)"] by simp
  show ?thesis
    using relayed_prefix [OF u] relayed_prefix [OF d] ue de by auto
qed






lemma nth_le_sum:
  fixes f :: "'a \<Rightarrow> nat"
  shows "i < length xs \<Longrightarrow> f (xs ! i) \<le> sum_list (map f xs)"
  using sum_map_nth [of i xs f] by simp

lemma local_closed_late:
  "hsync h \<Longrightarrow> hconn h \<Longrightarrow> htimed now h \<Longrightarrow> remote h = None \<Longrightarrow> \<not> closed (local h) \<Longrightarrow>
     now \<le> t_accept h + DialTimeout"
  by (cases "hpc h") (auto simp: hsync_def hconn_def htimed_def)

text \<open>
  C7. On every run, for every handler. When \<open>Dial\<close> fails the handler goes to its
  deferred function and nothing else in the system changes: no other handler, not the
  accept loop, no panic, no error value. A dialer does not connect after
  \<open>DialTimeout\<close>. A handler that has not dialled has relayed no byte in either
  direction and has no relay; its deferred function closes the local connection, gives
  the slot back and calls \<open>wg.Done()\<close>. The local connection of such a handler is closed
  at the latest \<open>DialTimeout\<close> after it was accepted: while it is open the clock has not
  passed that moment.
\<close>

theorem dial_failure_contained:
  assumes "boot k lp rh rp t = (None, s0)" and "s = run es s0"
    and "i < length (handlers s)" and "h = handlers s ! i" and "\<not> panicked s"
  shows "(hpc h = H_Dial \<longrightarrow>
            remote h = None
            \<and> step (DialReturns i False) s = s\<lparr>handlers := (handlers s)[i := h\<lparr>hpc := H_CloseLocal\<rparr>]\<rparr>
            \<and> (dial_start h + DialTimeout \<le> clock s \<longrightarrow>
                 step (DialReturns i True) s = step (DialReturns i False) s))
    \<and> (remote h = None \<longrightarrow>
          rcvd (local h) = [] \<and> written (local h) = [] \<and> up h = R_Idle \<and> down h = R_Idle
          \<and> (\<not> closed (local h) \<longrightarrow> clock s \<le> t_accept h + DialTimeout)
          \<and> closed_by (t_closed h) (t_accept h + DialTimeout))
    \<and> (remote h = None \<and> hpc h = H_CloseLocal \<longrightarrow>
          run [HandlerStep i, HandlerStep i, HandlerStep i] s
            = s\<lparr>handlers := (handlers s)
                  [i := h\<lparr>local := (local h)\<lparr>closed := True\<rparr>, t_closed := Some (clock s),
                          hpc := H_Exited\<rparr>],
                px := (px s)\<lparr>connSem := connSem (px s) - 1, wg := wg (px s) - 1\<rparr>\<rparr>
          \<and> 0 < connSem (px s) \<and> 0 < wg (px s))"
proof -
  have sy: "hsync h" and co: "hconn h" and hb: "hbytes h" and ti: "htimed (clock s) h"
    using handler_nth [OF assms(1-3)] assms(4) by simp_all
  have cn: "counted s" using Inv_reach [OF assms(1), of es] assms(2) by (simp add: Inv_def)
  have a: "hpc h = H_Dial \<longrightarrow>
            remote h = None
            \<and> step (DialReturns i False) s = s\<lparr>handlers := (handlers s)[i := h\<lparr>hpc := H_CloseLocal\<rparr>]\<rparr>
            \<and> (dial_start h + DialTimeout \<le> clock s \<longrightarrow>
                 step (DialReturns i True) s = step (DialReturns i False) s)"
    using sy assms(3,4,5)
    by (cases "remote h") (auto simp: step_def dial_returns_def set_handler_def hsync_def)
  have b: "remote h = None \<longrightarrow>
          rcvd (local h) = [] \<and> written (local h) = [] \<and> up h = R_Idle \<and> down h = R_Idle
          \<and> (\<not> closed (local h) \<longrightarrow> clock s \<le> t_accept h + DialTimeout)
          \<and> closed_by (t_closed h) (t_accept h + DialTimeout)"
  proof
    assume n: "remote h = None"
    have idle: "up h = R_Idle \<and> down h = R_Idle" using sy n by (simp add: hsync_def)
    then have "rcvd (local h) = [] \<and> written (local h) = []"
      using hb n by (simp add: hbytes_def relayed_def remote_written_def remote_rcvd_def)
    moreover have "closed_by (t_closed h) (t_accept h + DialTimeout)"
      using ti n by (simp add: htimed_def)
    ultimately show "rcvd (local h) = [] \<and> written (local h) = [] \<and> up h = R_Idle \<and> down h = R_Idle
          \<and> (\<not> closed (local h) \<longrightarrow> clock s \<le> t_accept h + DialTimeout)
          \<and> closed_by (t_closed h) (t_accept h + DialTimeout)"
      using idle local_closed_late [OF sy co ti n] by simp
  qed
  have c: "remote h = None \<and> hpc h = H_CloseLocal \<longrightarrow>
          run [HandlerStep i, HandlerStep i, HandlerStep i] s
            = s\<lparr>handlers := (handlers s)
                  [i := h\<lparr>local := (local h)\<lparr>closed := True\<rparr>, t_closed := Some (clock s),
                          hpc := H_Exited\<rparr>],
                px := (px s)\<lparr>connSem := connSem (px s) - 1, wg := wg (px s) - 1\<rparr>\<rparr>
          \<and> 0 < connSem (px s) \<and> 0 < wg (px s)"
  proof
    assume n: "remote h = None \<and> hpc h = H_CloseLocal"
    have "slot h \<le> slots s" "live h \<le> lives s"
      using nth_le_sum [OF assms(3), of slot] nth_le_sum [OF assms(3), of live] assms(4)
      by (simp_all add: slots_def lives_def)
    then have pos: "0 < connSem (px s) \<and> 0 < wg (px s)"
      using cn n by (simp add: counted_def slot_def live_def)
    then show "run [HandlerStep i, HandlerStep i, HandlerStep i] s
            = s\<lparr>handlers := (handlers s)
                  [i := h\<lparr>local := (local h)\<lparr>closed := True\<rparr>, t_closed := Some (clock s),
                          hpc := H_Exited\<rparr>],
                px := (px s)\<lparr>connSem := connSem (px s) - 1, wg := wg (px s) - 1\<rparr>\<rparr>
          \<and> 0 < connSem (px s) \<and> 0 < wg (px s)"
      using n assms(3,4,5)
      by (simp add: step_def handler_step_def set_handler_def wg_Done_def)
  qed
  from a b c show ?thesis by (intro conjI)
qed

lemma dialling_eq:
  "run dialling booted =
     booted\<lparr>px := (px booted)\<lparr>wg := 2, connSem := 1\<rparr>, handlers := [dial_handler],
       clock := 5000000000\<rparr>"
  by (simp add: dialling_def dial_handler_def dial_conn_def booted_eq ops)

lemma refused_eq:
  "run (dialling @ [DialReturns 0 True]) booted =
     booted\<lparr>px := (px booted)\<lparr>wg := 2, connSem := 1\<rparr>,
       handlers := [dial_handler\<lparr>hpc := H_CloseLocal\<rparr>], clock := 5000000000\<rparr>"
  by (simp add: dialling_def dial_handler_def dial_conn_def booted_eq ops)

theorem dial_failure_contained_witness:
  "boot host0 8000 ''10.0.0.5'' 3000 0 = (None, booted)
   \<and> handlers (run dialling booted) = [dial_handler] \<and> \<not> panicked (run dialling booted)
   \<and> hpc dial_handler = H_Dial
   \<and> dial_start dial_handler + DialTimeout \<le> clock (run dialling booted)
   \<and> step (DialReturns 0 True) (run dialling booted)
       = (run dialling booted)\<lparr>handlers := [dial_handler\<lparr>hpc := H_CloseLocal\<rparr>]\<rparr>
   \<and> remote (dial_handler\<lparr>hpc := H_CloseLocal\<rparr>) = None
   \<and> handlers (run [HandlerStep 0, HandlerStep 0, HandlerStep 0]
         (run (dialling @ [DialReturns 0 True]) booted))
       = [dial_handler\<lparr>local := dial_conn\<lparr>closed := True\<rparr>, t_closed := Some 5000000000,
            hpc := H_Exited\<rparr>]
   \<and> closed_by (Some 5000000000) (t_accept dial_handler + DialTimeout)"
proof -
  have p: "\<not> panicked (run dialling booted)"
    "\<not> panicked (run (dialling @ [DialReturns 0 True]) booted)"
    by (simp_all add: dialling_eq refused_eq) (simp_all add: booted_eq)
  have t: "dial_start dial_handler + DialTimeout \<le> clock (run dialling booted)"
    by (simp add: dialling_eq dial_handler_def DialTimeout_def second_def)
  show ?thesis
    using dial_failure_contained [OF boot_booted refl _ refl p(1), of 0]
      dial_failure_contained [OF boot_booted refl _ refl p(2), of 0] p t
    by (simp add: boot_booted dialling_eq refused_eq)
       (simp add: dial_handler_def closed_by_def DialTimeout_def second_def)
qed

lemma slots_in_flight: "slots s = in_flight s"
proof -
  have "sum_list (map slot hs) = length (filter flying hs)" for hs
    by (induction hs) (auto simp: slot_def flying_def)
  then show ?thesis by (simp add: slots_def in_flight_def)
qed

lemma hconn_landed: "hconn h \<Longrightarrow> landed h"
  by (cases "remote h") (auto simp: hconn_def landed_def flying_def)

lemma arrival:
  assumes "accept_pc s = A_Accept" "listener_open (px s)" "\<not> panicked s"
  shows "step AcceptSelect (step (AcceptReturns True) s)
    = (if connSem (px s) < MaxConnectionsPerProxy
       then s\<lparr>px := (px s)\<lparr>connSem := connSem (px s) + 1, wg := wg (px s) + 1\<rparr>,
              handlers := handlers s @ [new_handler (clock s)]\<rparr>
       else s\<lparr>rejected := rejected s @ [turned_away]\<rparr>)"
  using assms
  by (simp add: step_def accept_returns_def accept_select_def wg_Add_def turned_away_def)

lemma run_burst:
  assumes "accept_pc s = A_Accept" "listener_open (px s)" "\<not> panicked s"
    "connSem (px s) \<le> MaxConnectionsPerProxy"
  shows "run (burst n) s
    = s\<lparr>px := (px s)\<lparr>connSem := connSem (px s) + min n (MaxConnectionsPerProxy - connSem (px s)),
                       wg := wg (px s) + min n (MaxConnectionsPerProxy - connSem (px s))\<rparr>,
         handlers := handlers s
           @ replicate (min n (MaxConnectionsPerProxy - connSem (px s))) (new_handler (clock s)),
         rejected := rejected s
           @ replicate (n - (MaxConnectionsPerProxy - connSem (px s))) turned_away\<rparr>"
  using assms
proof (induction n arbitrary: s)
  case 0
  then show ?case by simp
next
  case (Suc n)
  let ?s' = "step AcceptSelect (step (AcceptReturns True) s)"
  have r: "run (burst (Suc n)) s = run (burst n) ?s'" by simp
  show ?case
  proof (cases "connSem (px s) < MaxConnectionsPerProxy")
    case True
    have s': "?s' = s\<lparr>px := (px s)\<lparr>connSem := connSem (px s) + 1, wg := wg (px s) + 1\<rparr>,
              handlers := handlers s @ [new_handler (clock s)]\<rparr>"
      using arrival [OF Suc.prems(1-3)] True by simp
    have "run (burst n) ?s' = ?s'\<lparr>px := (px ?s')\<lparr>connSem := connSem (px ?s') + min n (MaxConnectionsPerProxy - connSem (px ?s')),
                       wg := wg (px ?s') + min n (MaxConnectionsPerProxy - connSem (px ?s'))\<rparr>,
         handlers := handlers ?s'
           @ replicate (min n (MaxConnectionsPerProxy - connSem (px ?s'))) (new_handler (clock ?s')),
         rejected := rejected ?s'
           @ replicate (n - (MaxConnectionsPerProxy - connSem (px ?s'))) turned_away\<rparr>"
      using Suc.prems True by (intro Suc.IH) (simp_all add: s' listener_open_def)
    moreover have "min (Suc n) (MaxConnectionsPerProxy - connSem (px s))
        = Suc (min n (MaxConnectionsPerProxy - Suc (connSem (px s))))"
      using True by arith
    ultimately show ?thesis
      unfolding r using True by (simp add: s' replicate_app_Cons_same)
  next
    case False
    have s': "?s' = s\<lparr>rejected := rejected s @ [turned_away]\<rparr>"
      using arrival [OF Suc.prems(1-3)] False by simp
    have "run (burst n) ?s' = ?s'\<lparr>px := (px ?s')\<lparr>connSem := connSem (px ?s') + min n (MaxConnectionsPerProxy - connSem (px ?s')),
                       wg := wg (px ?s') + min n (MaxConnectionsPerProxy - connSem (px ?s'))\<rparr>,
         handlers := handlers ?s'
           @ replicate (min n (MaxConnectionsPerProxy - connSem (px ?s'))) (new_handler (clock ?s')),
         rejected := rejected ?s'
           @ replicate (n - (MaxConnectionsPerProxy - connSem (px ?s'))) turned_away\<rparr>"
      using Suc.prems by (intro Suc.IH) (simp_all add: s' listener_open_def)
    then show ?thesis
      unfolding r using False Suc.prems(4) by (simp add: s' replicate_app_Cons_same)
  qed
qed

lemma run_append: "run (xs @ ys) s = run ys (run xs s)"
  by (induction xs arbitrary: s) simp_all

text \<open>
  C2, as the code has it. On every run from a successful \<open>Start\<close>. The handlers in
  flight, those that have not yet given their slot back, are as many as there are
  elements in \<open>connSem\<close>, and never more than \<open>MaxConnectionsPerProxy\<close>; every other
  handler has closed its connections. When the accept loop stands at its \<open>select\<close> with a
  full \<open>connSem\<close>, the \<open>select\<close> does not block: the accepted connection is closed, no
  handler is spawned, \<open>connSem\<close> and the wait group are untouched and the loop is back in
  \<open>Accept\<close>. A connection turned away is closed and has carried no byte. When \<open>n\<close>
  clients connect while no handler finishes, as many are handed to a handler as there
  are free slots, and every other one is turned away; on a fresh proxy that is
  \<open>MaxConnectionsPerProxy\<close> of \<open>MaxConnectionsPerProxy + K\<close>, the other \<open>K\<close> being turned
  away.
\<close>

theorem admission_bound:
  assumes "boot k lp rh rp t = (None, s0)" and "s = run es s0"
  shows "in_flight s = connSem (px s) \<and> in_flight s \<le> MaxConnectionsPerProxy
    \<and> list_all landed (handlers s) \<and> list_all untouched (rejected s)
    \<and> (\<not> panicked s \<and> accept_pc s = A_GotConn u \<and> connSem (px s) = MaxConnectionsPerProxy \<longrightarrow>
          step AcceptSelect s = s\<lparr>rejected := rejected s @ [turned_away], accept_pc := A_Accept\<rparr>)
    \<and> (\<not> panicked s \<and> accept_pc s = A_Accept \<and> listener_open (px s) \<longrightarrow>
          handlers (run (burst n) s)
            = handlers s
              @ replicate (min n (MaxConnectionsPerProxy - in_flight s)) (new_handler (clock s))
          \<and> rejected (run (burst n) s)
            = rejected s @ replicate (n - (MaxConnectionsPerProxy - in_flight s)) turned_away)
    \<and> handlers (run (burst (MaxConnectionsPerProxy + K)) s0)
          = replicate MaxConnectionsPerProxy (new_handler t)
    \<and> rejected (run (burst (MaxConnectionsPerProxy + K)) s0) = replicate K turned_away"
proof -
  have inv: "Inv s" using assms by (simp add: Inv_reach)
  have a: "in_flight s = connSem (px s)" and b: "in_flight s \<le> MaxConnectionsPerProxy"
    using inv slots_in_flight [of s] by (simp_all add: Inv_def counted_def)
  have "list_all hconn (handlers s)" using inv by (simp add: Inv_def wf_def)
  then have c: "list_all landed (handlers s)"
    by (auto simp: list_all_iff hconn_landed)
  have d: "list_all untouched (rejected s)" using inv by (simp add: Inv_def rejects_def)
  have e: "\<not> panicked s \<and> accept_pc s = A_GotConn u \<and> connSem (px s) = MaxConnectionsPerProxy \<longrightarrow>
          step AcceptSelect s = s\<lparr>rejected := rejected s @ [turned_away], accept_pc := A_Accept\<rparr>"
    by (simp add: step_def accept_select_def turned_away_def)
  have f: "\<not> panicked s \<and> accept_pc s = A_Accept \<and> listener_open (px s) \<longrightarrow>
          handlers (run (burst n) s)
            = handlers s
              @ replicate (min n (MaxConnectionsPerProxy - in_flight s)) (new_handler (clock s))
          \<and> rejected (run (burst n) s)
            = rejected s @ replicate (n - (MaxConnectionsPerProxy - in_flight s)) turned_away"
  proof
    assume h: "\<not> panicked s \<and> accept_pc s = A_Accept \<and> listener_open (px s)"
    have "connSem (px s) \<le> MaxConnectionsPerProxy" using a b by simp
    then show "handlers (run (burst n) s)
            = handlers s
              @ replicate (min n (MaxConnectionsPerProxy - in_flight s)) (new_handler (clock s))
          \<and> rejected (run (burst n) s)
            = rejected s @ replicate (n - (MaxConnectionsPerProxy - in_flight s)) turned_away"
      using h a by (simp add: run_burst)
  qed
  have s0: "accept_pc s0 = A_Accept" "listener_open (px s0)" "\<not> panicked s0"
    "connSem (px s0) = 0" "handlers s0 = []" "rejected s0 = []" "clock s0 = t"
    using boot_cases [OF assms(1)]
    by (auto simp: listener_open_def New_def split: sum.splits)
  have g: "handlers (run (burst (MaxConnectionsPerProxy + K)) s0)
          = replicate MaxConnectionsPerProxy (new_handler t)
    \<and> rejected (run (burst (MaxConnectionsPerProxy + K)) s0) = replicate K turned_away"
    using s0 by (simp add: run_burst)
  from a b c d e f g [THEN conjunct1] g [THEN conjunct2] show ?thesis by (intro conjI)
qed

lemma gate_full_eq:
  "gate_full =
     booted\<lparr>px := (px booted)\<lparr>connSem := MaxConnectionsPerProxy, wg := Suc MaxConnectionsPerProxy\<rparr>,
       handlers := replicate MaxConnectionsPerProxy (new_handler 0),
       accept_pc := A_GotConn 0\<rparr>"
proof -
  have b: "accept_pc booted = A_Accept" "listener_open (px booted)" "\<not> panicked booted"
    "connSem (px booted) = 0" "wg (px booted) = 1" "handlers booted = []" "rejected booted = []"
    "clock booted = 0"
    by (simp_all add: booted_eq listener_open_def)
  have "run (burst MaxConnectionsPerProxy) booted
      = booted\<lparr>px := (px booted)\<lparr>connSem := MaxConnectionsPerProxy, wg := Suc MaxConnectionsPerProxy\<rparr>,
          handlers := replicate MaxConnectionsPerProxy (new_handler 0)\<rparr>"
    using run_burst [of booted MaxConnectionsPerProxy] b by simp
  then show ?thesis
    using b by (simp add: gate_full_def run_append step_def accept_returns_def listener_open_def)
qed

theorem admission_bound_witness:
  "boot host0 8000 ''10.0.0.5'' 3000 0 = (None, booted)
   \<and> \<not> panicked gate_full \<and> accept_pc gate_full = A_GotConn 0
   \<and> connSem (px gate_full) = MaxConnectionsPerProxy
   \<and> in_flight gate_full = 100
   \<and> step AcceptSelect gate_full = gate_full\<lparr>rejected := [turned_away], accept_pc := A_Accept\<rparr>
   \<and> length (handlers (step AcceptSelect gate_full)) = 100
   \<and> length (handlers (run (burst (MaxConnectionsPerProxy + 5)) booted)) = 100
   \<and> rejected (run (burst (MaxConnectionsPerProxy + 5)) booted) = replicate 5 turned_away"
proof -
  have g: "\<not> panicked gate_full" "accept_pc gate_full = A_GotConn 0"
    "connSem (px gate_full) = MaxConnectionsPerProxy" "rejected gate_full = []"
    "length (handlers gate_full) = 100"
    by (simp_all add: gate_full_eq) (simp_all add: booted_eq MaxConnectionsPerProxy_def)
  show ?thesis
    using admission_bound [OF boot_booted gate_full_def, of 0 _ 5] g
    by (simp add: boot_booted MaxConnectionsPerProxy_def)
qed

lemma parked_eq:
  "run parked booted
     = booted\<lparr>px := (px booted)\<lparr>wg := 2, connSem := 0\<rparr>, handlers := [parked_handler]\<rparr>"
  by (simp add: parked_def parked_handler_def booted_eq ops)

text \<open>
  C2, as it is worded, fails: the deferred function gives the slot back before it calls
  \<open>wg.Done()\<close> (lines 92 and 93), so a handler that has not returned yet no longer counts
  against \<open>connSem\<close>. With one handler standing at \<open>wg.Done()\<close>,
  \<open>MaxConnectionsPerProxy\<close> more clients are all handed to a handler: 101 handlers have
  not returned, 100 of them in flight.
\<close>

theorem more_handlers_than_slots:
  "\<not> running (run (parked @ burst MaxConnectionsPerProxy) booted) \<le> MaxConnectionsPerProxy
   \<and> running (run (parked @ burst MaxConnectionsPerProxy) booted) = 101
   \<and> in_flight (run (parked @ burst MaxConnectionsPerProxy) booted) = 100
   \<and> \<not> panicked (run (parked @ burst MaxConnectionsPerProxy) booted)"
proof -
  let ?s = "run parked booted"
  have b: "accept_pc ?s = A_Accept" "listener_open (px ?s)" "\<not> panicked ?s"
    "connSem (px ?s) = 0" "handlers ?s = [parked_handler]"
    by (simp_all add: parked_eq) (simp_all add: booted_eq listener_open_def)
  have "run (parked @ burst MaxConnectionsPerProxy) booted
      = ?s\<lparr>px := (px ?s)\<lparr>connSem := MaxConnectionsPerProxy,
                             wg := wg (px ?s) + MaxConnectionsPerProxy\<rparr>,
           handlers := parked_handler # replicate MaxConnectionsPerProxy (new_handler (clock ?s)),
           rejected := rejected ?s\<rparr>"
    using run_burst [of ?s MaxConnectionsPerProxy] b by (simp add: run_append)
  then show ?thesis
    using b(3)
    by (simp add: running_def in_flight_def flying_def parked_handler_def new_handler_def
          MaxConnectionsPerProxy_def)
qed

text \<open>
  The deadline of the local connection is set once, when the handler starts, and every
  read of the relay towards the backend fails from that moment plus
  \<open>ConnectionTimeout\<close> on, whatever was read and written before.
\<close>

lemma deadline_is_absolute:
  assumes "boot k lp rh rp t = (None, s0)" and "s = run es s0"
    and "i < length (handlers s)" and "h = handlers s ! i" and "\<not> panicked s"
    and "up h = R_Read" and "dial_start h + ConnectionTimeout \<le> clock s"
  shows "deadline (local h) = Some (dial_start h + ConnectionTimeout)
    \<and> handlers (step (ReadReturns i Up r) s) ! i = h\<lparr>up_end := Some CopyErr, up := R_CloseWrite\<rparr>"
proof -
  have sy: "hsync h" and ti: "htimed (clock s) h"
    using handler_nth [OF assms(1-3)] assms(4) by simp_all
  have "hpc h \<noteq> H_SetDeadline"
    using sy assms(6) by (cases "remote h") (auto simp: hsync_def)
  then have d: "deadline (local h) = Some (dial_start h + ConnectionTimeout)"
    using ti by (simp add: htimed_def)
  then have "conn_Read (local h) (clock s) r = ReadErr"
    using assms(7) by (simp add: conn_Read_def expired_def)
  then show ?thesis
    using d assms(3-6)
    by (simp add: step_def read_returns_def rpc_of_def src_of_def set_rpc_def set_end_def)
qed

text \<open>
  C1 fails on that client. It has written the four bytes 1, 2, 3, 4, never more than
  ten seconds apart, to a proxy with an echoing backend; the fourth is offered to a
  read that fails on the deadline set when the handler started, so the handler has
  returned, having closed the connection, with only 1, 2, 3 written back.
\<close>

theorem round_trip_cut_short:
  "offered 0 Up cut_short = [1, 2, 3, 4]
   \<and> clock (run cut_short booted) = 30 * second
   \<and> length (handlers (run cut_short booted)) = 1
   \<and> hpc (handlers (run cut_short booted) ! 0) = H_Exited
   \<and> closed (local (handlers (run cut_short booted) ! 0))
   \<and> written (local (handlers (run cut_short booted) ! 0)) = [1, 2, 3]
   \<and> up_end (handlers (run cut_short booted) ! 0) = Some CopyErr"
  by (simp add: cut_short_def busy_session_def booted_eq ops)

text \<open>
  C4. The relay of that client is aborted by the deadline although the connection was
  never silent for more than ten seconds: after thirty seconds both relays stand in
  \<open>Read\<close> with every byte relayed, and the read of the fourth byte fails, and so does the
  read from the backend; the handler then closes both connections.
\<close>

theorem active_connection_aborted:
  "run busy_session booted
     = booted\<lparr>px := (px booted)\<lparr>wg := 2, connSem := 1\<rparr>, handlers := [busy_handler],
         clock := 30 * second\<rparr>
   \<and> handlers (run (busy_session @ [ReadReturns 0 Up (Data [4])]) booted)
       = [busy_handler\<lparr>up_end := Some CopyErr, up := R_CloseWrite\<rparr>]
   \<and> handlers (run (busy_session @ [ReadReturns 0 Up (Data [4]), ReadReturns 0 Down (Data [4]),
         RelayStep 0 Up, RelayStep 0 Up, RelayStep 0 Down, RelayStep 0 Down,
         HandlerStep 0, HandlerStep 0, HandlerStep 0, HandlerStep 0]) booted)
       = [busy_handler\<lparr>up_end := Some CopyErr, up := R_Exited,
            down_end := Some CopyErr, down := R_Exited,
            local := busy_conn\<lparr>wr_closed := True, closed := True\<rparr>,
            remote := Some (busy_conn\<lparr>wr_closed := True, closed := True\<rparr>),
            t_closed := Some (30 * second), hpc := H_Release\<rparr>]"
  by (simp add: busy_session_def busy_handler_def busy_conn_def booted_eq ops)

end
